theory Spec2Isabelle
  imports Complex_Main "HOL-Library.Word" "HOL-Library.Multiset"
begin

section \<open>Temporal laser speckle contrast analysis (package tlasca)\<close>

text \<open>
  The development embeds \<^verbatim>\<open>internal/tlasca/tlasca.go\<close>: the window statistic
  \<^verbatim>\<open>temporalWindowContrast\<close> and the map assembler \<^verbatim>\<open>calculateContrastMap\<close>,
  together with the parts of Go's \<^verbatim>\<open>image\<close> and \<^verbatim>\<open>math\<close> packages they call.

  Go's \<^verbatim>\<open>int\<close> is modelled by \<open>int\<close>: every product and sum the two functions form
  is bounded by the number of pixels of a frame held in memory, so no operation wraps.
\<close>

subsection \<open>float64\<close>

text \<open>
  A \<^verbatim>\<open>float64\<close> is either a finite number or one of the three special values of
  IEEE 754. Finite values are carried as exact reals: rounding, overflow of a finite
  result to an infinity and the sign of zero are not modelled (every zero the program
  divides by is the conversion of the integer 0, a positive zero). The special values
  follow IEEE 754: \<open>0/0\<close> is \<open>NaN\<close>, \<open>x/0\<close> is an infinity for \<open>x \<noteq> 0\<close>, and \<open>NaN\<close>
  propagates through arithmetic and makes every comparison false.
\<close>

datatype float64 = Fin real | PInf | NInf | NaN

fun isNeg :: "float64 \<Rightarrow> bool" where
  "isNeg (Fin a) = (a < 0)"
| "isNeg PInf = False"
| "isNeg NInf = True"
| "isNeg NaN = False"

fun fneg :: "float64 \<Rightarrow> float64" where
  "fneg (Fin a) = Fin (- a)"
| "fneg PInf = NInf"
| "fneg NInf = PInf"
| "fneg NaN = NaN"

fun fadd :: "float64 \<Rightarrow> float64 \<Rightarrow> float64" where
  "fadd (Fin a) (Fin b) = Fin (a + b)"
| "fadd NaN b = NaN"
| "fadd a NaN = NaN"
| "fadd PInf NInf = NaN"
| "fadd NInf PInf = NaN"
| "fadd PInf b = PInf"
| "fadd a PInf = PInf"
| "fadd NInf b = NInf"
| "fadd a NInf = NInf"

definition fsub :: "float64 \<Rightarrow> float64 \<Rightarrow> float64" where
  "fsub a b = fadd a (fneg b)"

definition fmul :: "float64 \<Rightarrow> float64 \<Rightarrow> float64" where
  "fmul a b =
     (if a = NaN \<or> b = NaN then NaN
      else case (a, b) of
        (Fin x, Fin y) \<Rightarrow> Fin (x * y)
      | _ \<Rightarrow> if a = Fin 0 \<or> b = Fin 0 then NaN
             else if isNeg a = isNeg b then PInf else NInf)"

definition fdiv :: "float64 \<Rightarrow> float64 \<Rightarrow> float64" where
  "fdiv a b =
     (if a = NaN \<or> b = NaN then NaN
      else case (a, b) of
        (Fin x, Fin y) \<Rightarrow>
          if y \<noteq> 0 then Fin (x / y)
          else if x = 0 then NaN
          else if 0 < x then PInf else NInf
      | (Fin x, _) \<Rightarrow> Fin 0
      | (_, Fin y) \<Rightarrow> if isNeg a = (y < 0) then PInf else NInf
      | _ \<Rightarrow> NaN)"

text \<open>\<^verbatim>\<open>math.Sqrt\<close>: \<open>NaN\<close> for a negative argument, \<open>+Inf\<close> for \<open>+Inf\<close>.\<close>

fun math_Sqrt :: "float64 \<Rightarrow> float64" where
  "math_Sqrt (Fin a) = (if a < 0 then NaN else Fin (sqrt a))"
| "math_Sqrt PInf = PInf"
| "math_Sqrt NInf = NaN"
| "math_Sqrt NaN = NaN"

text \<open>The comparison \<^verbatim>\<open>a > b\<close>.\<close>

fun fgt :: "float64 \<Rightarrow> float64 \<Rightarrow> bool" where
  "fgt (Fin a) (Fin b) = (b < a)"
| "fgt NaN b = False"
| "fgt a NaN = False"
| "fgt a PInf = False"
| "fgt NInf b = False"
| "fgt PInf b = True"
| "fgt a NInf = True"

text \<open>
  \<^verbatim>\<open>math.Min\<close>: \<open>-Inf\<close> if either argument is \<open>-Inf\<close>, else \<open>NaN\<close> if either is \<open>NaN\<close>,
  else the smaller argument.
\<close>

definition math_Min :: "float64 \<Rightarrow> float64 \<Rightarrow> float64" where
  "math_Min x y =
     (if x = NInf \<or> y = NInf then NInf
      else if x = NaN \<or> y = NaN then NaN
      else if fgt y x then x else y)"

text \<open>
  The conversion \<^verbatim>\<open>byte(f)\<close> discards the fraction (truncation towards zero). When the
  truncated value is not a \<^verbatim>\<open>uint8\<close>, or \<open>f\<close> is not finite, the language leaves the
  result to the implementation: the parameter \<open>u\<close> stands for that choice.
\<close>

fun toByte :: "(float64 \<Rightarrow> 8 word) \<Rightarrow> float64 \<Rightarrow> 8 word" where
  "toByte u (Fin a) =
     (if 0 \<le> a \<and> a < 256 then word_of_int \<lfloor>a\<rfloor>
      else if - 1 < a \<and> a < 0 then 0
      else u (Fin a))"
| "toByte u f = u f"

subsection \<open>Package image: rectangles and 8-bit grayscale images\<close>

record Rectangle =
  MinX :: int
  MinY :: int
  MaxX :: int
  MaxY :: int

text \<open>\<^verbatim>\<open>image.Rect\<close> orders the corners before it builds the rectangle.\<close>

definition image_Rect :: "int \<Rightarrow> int \<Rightarrow> int \<Rightarrow> int \<Rightarrow> Rectangle" where
  "image_Rect x0 y0 x1 y1 =
     \<lparr>MinX = (if x0 > x1 then x1 else x0), MinY = (if y0 > y1 then y1 else y0),
      MaxX = (if x0 > x1 then x0 else x1), MaxY = (if y0 > y1 then y0 else y1)\<rparr>"

definition Dx :: "Rectangle \<Rightarrow> int" where
  "Dx r = MaxX r - MinX r"

definition Dy :: "Rectangle \<Rightarrow> int" where
  "Dy r = MaxY r - MinY r"

text \<open>\<^verbatim>\<open>Point{x, y}.In(r)\<close>\<close>

definition Point_In :: "int \<Rightarrow> int \<Rightarrow> Rectangle \<Rightarrow> bool" where
  "Point_In x y r \<longleftrightarrow> MinX r \<le> x \<and> x < MaxX r \<and> MinY r \<le> y \<and> y < MaxY r"

record Gray =
  Pix :: "8 word list"
  Stride :: int
  Rect :: Rectangle

definition NewGray :: "Rectangle \<Rightarrow> Gray" where
  "NewGray r = \<lparr>Pix = replicate (nat (Dx r * Dy r)) 0, Stride = Dx r, Rect = r\<rparr>"

definition PixOffset :: "Gray \<Rightarrow> int \<Rightarrow> int \<Rightarrow> int" where
  "PixOffset p x y = (y - MinY (Rect p)) * Stride p + (x - MinX (Rect p)) * 1"

text \<open>
  \<^verbatim>\<open>GrayAt\<close> answers the zero colour outside the rectangle and reads the buffer inside;
  \<^verbatim>\<open>SetGray\<close> does nothing outside. On an image whose buffer is shorter than its
  rectangle asks for, the read and the write panic in Go: no function of package
  \<^verbatim>\<open>image\<close> builds such an image, and \<open>isFrame\<close> below excludes them.
\<close>

definition GrayAt :: "Gray \<Rightarrow> int \<Rightarrow> int \<Rightarrow> 8 word" where
  "GrayAt p x y =
     (if \<not> Point_In x y (Rect p) then 0 else Pix p ! nat (PixOffset p x y))"

definition SetGray :: "Gray \<Rightarrow> int \<Rightarrow> int \<Rightarrow> 8 word \<Rightarrow> Gray" where
  "SetGray p x y c =
     (if \<not> Point_In x y (Rect p) then p
      else p\<lparr>Pix := (Pix p)[nat (PixOffset p x y) := c]\<rparr>)"

subsection \<open>Configuration and runner\<close>

record AlgorithmConfig =
  WindowSize :: int

record Runner =
  algorithm :: AlgorithmConfig

subsection \<open>temporalWindowContrast\<close>

text \<open>The time series of one pixel (the loop over \<^verbatim>\<open>images\<close> that fills \<^verbatim>\<open>values\<close>).\<close>

definition timeSeries :: "Gray list \<Rightarrow> int \<Rightarrow> int \<Rightarrow> float64 list" where
  "timeSeries images px py = map (\<lambda>img. Fin (real (unat (GrayAt img px py)))) images"

text \<open>The mean over time: the accumulation loop, then the division by \<^verbatim>\<open>len(values)\<close>.\<close>

definition temporalMean :: "float64 list \<Rightarrow> float64" where
  "temporalMean values =
     fdiv (fold (\<lambda>v mean. fadd mean v) values (Fin 0)) (Fin (real (length values)))"

text \<open>
  The sum of squared deviations, the sample variance and the standard deviation.
  \<open>temporalStdDev\<close> takes the mean from \<open>temporalMean\<close>, the value that the source keeps
  in the variable \<^verbatim>\<open>mean\<close>.
\<close>

definition sumSquaredDiff :: "float64 list \<Rightarrow> float64 \<Rightarrow> float64" where
  "sumSquaredDiff values mean =
     fold (\<lambda>v sumDiff2. let diff = fsub v mean in fadd sumDiff2 (fmul diff diff))
       values (Fin 0)"

definition temporalStdDev :: "float64 list \<Rightarrow> float64" where
  "temporalStdDev values =
     (let mean = temporalMean values;
          sumDiff2 = sumSquaredDiff values mean;
          variance = fdiv sumDiff2 (Fin (real_of_int (int (length values) - 1)))
      in math_Sqrt variance)"

text \<open>
  The body of the two window loops for the pixel \<open>(px, py)\<close>: it returns the new value
  of the accumulator \<^verbatim>\<open>sumVar\<close>.
\<close>

definition pixelStep :: "Gray list \<Rightarrow> int \<Rightarrow> int \<Rightarrow> float64 \<Rightarrow> float64" where
  "pixelStep images px py sumVar =
     (let values = timeSeries images px py;
          mean = temporalMean values;
          stdDev = temporalStdDev values
      in if fgt mean (Fin 0) then fadd sumVar (fdiv stdDev mean) else sumVar)"

definition temporalWindowContrast :: "Runner \<Rightarrow> Gray list \<Rightarrow> int \<Rightarrow> int \<Rightarrow> float64" where
  "temporalWindowContrast r images x y =
     (let S = WindowSize (algorithm r);
          pixelCount = Fin (real_of_int (S * S));
          sumVar =
            fold (\<lambda>dy sumVar. fold (\<lambda>dx sumVar. pixelStep images (x + dx) (y + dy) sumVar)
                    [0..S - 1] sumVar)
              [0..S - 1] (Fin 0)
      in fdiv sumVar pixelCount)"

subsection \<open>calculateContrastMap\<close>

text \<open>
  Go's integer division truncates towards zero (the divisor of the source is
  \<^verbatim>\<open>runtime.NumCPU()\<close>, never zero). The runtime panics that the function can raise
  are the values of \<open>panic\<close>.
\<close>

definition quo :: "int \<Rightarrow> int \<Rightarrow> int" where
  "quo a b = sgn a * sgn b * (\<bar>a\<bar> div \<bar>b\<bar>)"

datatype panic = IndexOutOfRange | MakesliceLenOutOfRange | MakesliceCapOutOfRange

text \<open>The rows \<open>startY \<le> y < endY\<close> of worker \<open>i\<close>.\<close>

definition workerRange :: "int \<Rightarrow> int \<Rightarrow> int \<Rightarrow> int \<times> int" where
  "workerRange numWorkers heightNew i =
     (let rowsPerWorker = quo heightNew numWorkers;
          startY = i * rowsPerWorker;
          endY = (i + 1) * rowsPerWorker
      in (startY, if i = numWorkers - 1 then heightNew else endY))"

text \<open>
  A goroutine computes its rows in order; each finished row is one write
  \<^verbatim>\<open>listContrast[y] = row\<close> to the shared slice. The goroutine is modelled by the list
  of its writes.
\<close>

definition contrastRow :: "Runner \<Rightarrow> Gray list \<Rightarrow> int \<Rightarrow> int \<Rightarrow> float64 list" where
  "contrastRow r images widthNew y =
     map (\<lambda>x. temporalWindowContrast r images x y) [0..widthNew - 1]"

definition goroutine ::
  "Runner \<Rightarrow> Gray list \<Rightarrow> int \<Rightarrow> int \<times> int \<Rightarrow> (int \<times> float64 list) list" where
  "goroutine r images widthNew rows =
     map (\<lambda>y. (y, contrastRow r images widthNew y)) [fst rows..snd rows - 1]"

definition writeRow :: "int \<times> float64 list \<Rightarrow> float64 list list \<Rightarrow> float64 list list" where
  "writeRow w listContrast = listContrast[nat (fst w) := snd w]"

text \<open>The second half of the function: scaling and the output image.\<close>

definition scaleContrast :: "(float64 \<Rightarrow> 8 word) \<Rightarrow> float64 \<Rightarrow> 8 word" where
  "scaleContrast u c = toByte u (math_Min (fmul c (Fin 255)) (Fin 255))"

definition buildImage ::
  "(float64 \<Rightarrow> 8 word) \<Rightarrow> int \<Rightarrow> int \<Rightarrow> float64 list list \<Rightarrow> Gray" where
  "buildImage u widthNew heightNew listContrast =
     fold (\<lambda>y changeMap.
             fold (\<lambda>x changeMap.
                     SetGray changeMap x y (scaleContrast u (listContrast ! nat y ! nat x)))
               [0..widthNew - 1] changeMap)
       [0..heightNew - 1] (NewGray (image_Rect 0 0 widthNew heightNew))"

text \<open>
  \<open>numWorkers\<close> is the value of \<^verbatim>\<open>runtime.NumCPU()\<close>, at least 1 on every platform.
  The goroutines run concurrently, so the order in which their row writes reach
  \<^verbatim>\<open>listContrast\<close> is not fixed by the program: \<open>schedule\<close> is the reordering of the
  writes that one execution performs, and \<^verbatim>\<open>wg.Wait()\<close> is the point where all of them
  have been applied. \<^verbatim>\<open>make\<close> panics on a negative length (the outer slice) and on a
  negative capacity (the row of the first goroutine that has a row to compute). After
  the barrier every row of \<^verbatim>\<open>listContrast\<close> has been written with \<open>widthNew\<close> entries, so
  the reads \<^verbatim>\<open>listContrast[y][x]\<close> of the scaling loops are in range.
\<close>

definition calculateContrastMap ::
  "Runner \<Rightarrow> (float64 \<Rightarrow> 8 word) \<Rightarrow> int \<Rightarrow>
   ((int \<times> float64 list) list \<Rightarrow> (int \<times> float64 list) list) \<Rightarrow> Gray list \<Rightarrow> panic + Gray" where
  "calculateContrastMap r u numWorkers schedule grayImages =
     (case grayImages of
        [] \<Rightarrow> Inl IndexOutOfRange
      | img0 # _ \<Rightarrow>
          let bounds = Rect img0;
              widthNew = Dx bounds - WindowSize (algorithm r) + 1;
              heightNew = Dy bounds - WindowSize (algorithm r) + 1
          in if heightNew < 0 then Inl MakesliceLenOutOfRange
             else
               let ranges = map (workerRange numWorkers heightNew) [0..numWorkers - 1]
               in if widthNew < 0 \<and> list_ex (\<lambda>rows. fst rows < snd rows) ranges
                  then Inl MakesliceCapOutOfRange
                  else
                    let writes = concat (map (goroutine r grayImages widthNew) ranges);
                        listContrast =
                          fold writeRow (schedule writes) (replicate (nat heightNew) [])
                    in Inr (buildImage u widthNew heightNew listContrast))"

text \<open>
  \<^verbatim>\<open>Run\<close> is the public entry point: it writes two log lines around the call of
  \<^verbatim>\<open>calculateContrastMap\<close> and returns what the call returns.
\<close>

definition Run ::
  "Runner \<Rightarrow> (float64 \<Rightarrow> 8 word) \<Rightarrow> int \<Rightarrow>
   ((int \<times> float64 list) list \<Rightarrow> (int \<times> float64 list) list) \<Rightarrow> Gray list \<Rightarrow> panic + Gray" where
  "Run r u numWorkers schedule grayImages =
     calculateContrastMap r u numWorkers schedule grayImages"

subsection \<open>The window statistic as the specification words it\<close>

text \<open>
  The specification describes a frame as a grid of \<open>W \<times> H\<close> samples and the window
  contrast by formulas over the reals. \<open>spec_intensity f px py\<close> is the sample of the
  pixel \<open>(px, py)\<close> in the row-major grid; the other definitions are the formulas of
  the specification, word for word: mean, sample variance with divisor \<open>N - 1\<close>,
  standard deviation, pixel contrast guarded by \<open>mean > 0\<close>, and the average over the
  \<open>S * S\<close> pixels of the window.
\<close>

definition spec_intensity :: "Gray \<Rightarrow> int \<Rightarrow> int \<Rightarrow> real" where
  "spec_intensity f px py = real (unat (Pix f ! nat (py * Dx (Rect f) + px)))"

definition spec_mean :: "real list \<Rightarrow> real" where
  "spec_mean v = sum_list v / real (length v)"

definition spec_sampleVariance :: "real list \<Rightarrow> real" where
  "spec_sampleVariance v = (\<Sum>x\<leftarrow>v. (x - spec_mean v)\<^sup>2) / (real (length v) - 1)"

definition spec_stdDev :: "real list \<Rightarrow> real" where
  "spec_stdDev v = sqrt (spec_sampleVariance v)"

definition spec_pixelContrast :: "real list \<Rightarrow> real" where
  "spec_pixelContrast v = (if spec_mean v > 0 then spec_stdDev v / spec_mean v else 0)"

definition spec_windowContrast :: "int \<Rightarrow> Gray list \<Rightarrow> int \<Rightarrow> int \<Rightarrow> real" where
  "spec_windowContrast S frames x y =
     (\<Sum>py = y..y + S - 1. \<Sum>px = x..x + S - 1.
        spec_pixelContrast (map (\<lambda>f. spec_intensity f px py) frames))
     / real_of_int (S * S)"

subsection \<open>Frames, valid inputs and example data\<close>

text \<open>
  \<open>isFrame W H f\<close>: \<open>f\<close> is an image as \<^verbatim>\<open>image.NewGray(image.Rect(0, 0, W, H))\<close>
  allocates it, which is how the loader (\<^verbatim>\<open>ConvertToGray\<close> of a decoded PNG) builds
  every frame. \<open>validInput\<close> collects the preconditions of the specification: at
  least two frames, all of the same dimensions, and \<open>1 \<le> S \<le> min W H\<close>.
  \<open>wellFormed f\<close> asks only that \<open>f\<close> is such an image of its own dimensions.
  \<open>grayValues\<close> is the time series of a pixel as real numbers. \<open>NewRunner\<close> is the
  constructor of the source (the logger and the path settings play no part in the
  computation and are left out); \<open>runnerWith\<close>, \<open>uniformFrame\<close>, \<open>frameOf\<close> and
  \<open>zeroByte\<close> build the example inputs, \<open>zeroByte\<close> being one choice for the conversions
  that the language leaves open.
\<close>

definition isFrame :: "int \<Rightarrow> int \<Rightarrow> Gray \<Rightarrow> bool" where
  "isFrame W H f \<longleftrightarrow>
     0 \<le> W \<and> 0 \<le> H \<and> Rect f = image_Rect 0 0 W H \<and> Stride f = W
     \<and> length (Pix f) = nat (W * H)"

definition validInput :: "Runner \<Rightarrow> Gray list \<Rightarrow> int \<Rightarrow> int \<Rightarrow> bool" where
  "validInput r frames W H \<longleftrightarrow>
     2 \<le> length frames \<and> list_all (isFrame W H) frames
     \<and> 1 \<le> WindowSize (algorithm r) \<and> WindowSize (algorithm r) \<le> min W H"

definition wellFormed :: "Gray \<Rightarrow> bool" where
  "wellFormed f \<longleftrightarrow> isFrame (Dx (Rect f)) (Dy (Rect f)) f"

record Config =
  Algorithm :: AlgorithmConfig

definition NewRunner :: "Config \<Rightarrow> Runner" where
  "NewRunner cfg = \<lparr>algorithm = Algorithm cfg\<rparr>"

definition runnerWith :: "int \<Rightarrow> Runner" where
  "runnerWith S = NewRunner \<lparr>Algorithm = \<lparr>WindowSize = S\<rparr>\<rparr>"

definition uniformFrame :: "int \<Rightarrow> int \<Rightarrow> 8 word \<Rightarrow> Gray" where
  "uniformFrame W H v =
     \<lparr>Pix = replicate (nat (W * H)) v, Stride = W, Rect = image_Rect 0 0 W H\<rparr>"

definition grayValues :: "Gray list \<Rightarrow> int \<Rightarrow> int \<Rightarrow> real list" where
  "grayValues images px py = map (\<lambda>img. real (unat (GrayAt img px py))) images"

definition frameOf :: "int \<Rightarrow> int \<Rightarrow> 8 word list \<Rightarrow> Gray" where
  "frameOf W H pix = \<lparr>Pix = pix, Stride = W, Rect = image_Rect 0 0 W H\<rparr>"

definition zeroByte :: "float64 \<Rightarrow> 8 word" where
  "zeroByte f = 0"

text \<open>The output dimensions that \<open>calculateContrastMap\<close> computes from the first frame.\<close>

definition widthOut :: "Runner \<Rightarrow> Gray list \<Rightarrow> int" where
  "widthOut r images = Dx (Rect (hd images)) - WindowSize (algorithm r) + 1"

definition heightOut :: "Runner \<Rightarrow> Gray list \<Rightarrow> int" where
  "heightOut r images = Dy (Rect (hd images)) - WindowSize (algorithm r) + 1"

text \<open>
  The purely sequential computation that the specification compares the parallel one
  with: every row in turn, every column of the row in turn, then the same scaling
  stage.
\<close>

definition sequentialContrastMap :: "Runner \<Rightarrow> (float64 \<Rightarrow> 8 word) \<Rightarrow> Gray list \<Rightarrow> Gray" where
  "sequentialContrastMap r u frames =
     (let outW = widthOut r frames;
          outH = heightOut r frames;
          rows = map (\<lambda>y. map (\<lambda>x. temporalWindowContrast r frames x y) [0..outW - 1])
                   [0..outH - 1]
      in buildImage u outW outH rows)"

section \<open>Properties\<close>

subsection \<open>The row partition\<close>

lemma quo_nonneg: "0 \<le> a \<Longrightarrow> 0 < b \<Longrightarrow> quo a b = a div b"
  by (cases "a = 0") (simp_all add: quo_def)

lemma workerRange_fst: "fst (workerRange K h i) = i * quo h K"
  by (simp add: workerRange_def Let_def)

lemma workerRange_snd:
  "snd (workerRange K h i) = (if i = K - 1 then h else (i + 1) * quo h K)"
  by (simp add: workerRange_def Let_def)

lemma concat_upto_blocks:
  assumes "0 \<le> q"
  shows "concat (map (\<lambda>i. [i * q..(i + 1) * q - 1]) [0..int n - 1]) = [0..int n * q - 1]"
proof (induction n)
  case 0
  then show ?case by simp
next
  case (Suc n)
  have "[0..int (Suc n) - 1] = [0..int n - 1] @ [int n]"
    using upto_rec2 [of 0 "int n"] by simp
  moreover have "[0..int (Suc n) * q - 1] = [0..int n * q - 1] @ [int n * q..(int n + 1) * q - 1]"
  proof -
    have "0 \<le> int n * q" using assms by simp
    moreover have "int n * q \<le> (int n + 1) * q" using assms by (simp add: algebra_simps)
    ultimately have "[0..(int n + 1) * q - 1] = [0..int n * q - 1] @ [int n * q..(int n + 1) * q - 1]"
      using upto_split1 [of 0 "int n * q" "(int n + 1) * q - 1"]
      by (cases "q = 0") (auto simp: algebra_simps)
    then show ?thesis by (simp add: algebra_simps)
  qed
  ultimately show ?case using Suc.IH by simp
qed

lemma ranges_concat:
  assumes "0 \<le> h" "1 \<le> K"
  shows "concat (map (\<lambda>i. [fst (workerRange K h i)..snd (workerRange K h i) - 1]) [0..K - 1])
         = [0..h - 1]"
proof -
  define q where "q = quo h K"
  have q: "q = h div K" "0 \<le> q" using assms by (simp_all add: q_def quo_nonneg pos_imp_zdiv_nonneg_iff)
  have le: "(K - 1) * q \<le> h"
  proof -
    have "K * (h div K) \<le> h"
      using mult_div_mod_eq [of K h] pos_mod_sign [of K h] assms by linarith
    moreover have "(K - 1) * q \<le> K * q" using q(2) by (simp add: algebra_simps)
    ultimately show ?thesis by (simp add: q(1) mult.commute)
  qed
  have split: "[0..K - 1] = [0..K - 2] @ [K - 1]"
    using assms upto_rec2 [of 0 "K - 1"] by simp
  have blocks: "map (\<lambda>i. [fst (workerRange K h i)..snd (workerRange K h i) - 1]) [0..K - 2]
      = map (\<lambda>i. [i * q..(i + 1) * q - 1]) [0..K - 2]"
    by (intro map_cong) (auto simp: workerRange_fst workerRange_snd q_def)
  have "concat (map (\<lambda>i. [i * q..(i + 1) * q - 1]) [0..K - 2]) = [0..(K - 1) * q - 1]"
    using concat_upto_blocks [OF q(2), of "nat (K - 1)"] assms by simp
  then have front:
    "concat (map (\<lambda>i. [fst (workerRange K h i)..snd (workerRange K h i) - 1]) [0..K - 2])
      = [0..(K - 1) * q - 1]"
    by (simp only: blocks)
  have "[fst (workerRange K h (K - 1))..snd (workerRange K h (K - 1)) - 1] = [(K - 1) * q..h - 1]"
    by (simp add: workerRange_fst workerRange_snd q_def)
  with front have "concat (map (\<lambda>i. [fst (workerRange K h i)..snd (workerRange K h i) - 1]) [0..K - 1])
      = [0..(K - 1) * q - 1] @ [(K - 1) * q..h - 1]"
    by (simp add: split)
  also have "\<dots> = [0..h - 1]"
    using upto_split1 [of 0 "(K - 1) * q" "h - 1"] le q(2) assms
    by (cases "(K - 1) * q \<le> h - 1") (auto simp: not_le)
  finally show ?thesis .
qed

lemma block_index_unique:
  fixes q :: int
  assumes "0 < q" "j * q \<le> y" "y < (j + 1) * q"
  shows "j = y div q"
proof -
  have "y = q * j + (y - j * q)" by (simp add: algebra_simps)
  moreover have "0 \<le> y - j * q" using assms by simp
  moreover have "y - j * q < q" using assms by (simp add: algebra_simps)
  ultimately show ?thesis using int_div_pos_eq [of y q j "y - j * q"] by simp
qed

lemma row_owner_unique:
  assumes "1 \<le> h" "1 \<le> K" "0 \<le> y" "y < h"
  shows "\<exists>!i. i \<in> {0..K - 1} \<and> fst (workerRange K h i) \<le> y \<and> y < snd (workerRange K h i)"
proof -
  define q where "q = quo h K"
  have q0: "0 \<le> q" using assms by (simp add: q_def quo_nonneg pos_imp_zdiv_nonneg_iff)
  have last: "fst (workerRange K h (K - 1)) \<le> y \<and> y < snd (workerRange K h (K - 1))
      \<longleftrightarrow> (K - 1) * q \<le> y"
    using assms by (simp add: workerRange_fst workerRange_snd q_def)
  have inner: "fst (workerRange K h i) \<le> y \<and> y < snd (workerRange K h i)
      \<longleftrightarrow> i * q \<le> y \<and> y < (i + 1) * q" if "i \<noteq> K - 1" for i
    using that by (simp add: workerRange_fst workerRange_snd q_def)
  show ?thesis
  proof (cases "(K - 1) * q \<le> y")
    case True
    show ?thesis
    proof (rule ex1I [of _ "K - 1"])
      show "K - 1 \<in> {0..K - 1} \<and> fst (workerRange K h (K - 1)) \<le> y
          \<and> y < snd (workerRange K h (K - 1))"
        using True assms(2) last by simp
    next
      fix i
      assume i: "i \<in> {0..K - 1} \<and> fst (workerRange K h i) \<le> y \<and> y < snd (workerRange K h i)"
      show "i = K - 1"
      proof (rule ccontr)
        assume ne: "i \<noteq> K - 1"
        then have "i + 1 \<le> K - 1" using i by simp
        then have "(i + 1) * q \<le> (K - 1) * q" using q0 by (rule mult_right_mono)
        moreover have "y < (i + 1) * q" using i inner [OF ne] by blast
        ultimately show False using True by linarith
      qed
    qed
  next
    case False
    have qpos: "0 < q"
    proof (rule ccontr)
      assume "\<not> 0 < q"
      then have "q = 0" using q0 by simp
      then show False using False assms(3) by simp
    qed
    define i where "i = y div q"
    have i0: "0 \<le> i" using assms(3) qpos by (simp add: i_def pos_imp_zdiv_nonneg_iff)
    have e: "q * i + y mod q = y" unfolding i_def by (rule mult_div_mod_eq)
    have lo: "i * q \<le> y"
      using e pos_mod_sign [OF qpos, of y] by (simp add: mult.commute [of i q])
    have "y < q * i + q" using e pos_mod_bound [OF qpos, of y] by linarith
    then have hi: "y < (i + 1) * q" by (simp add: algebra_simps)
    have iK: "i < K - 1"
    proof (rule ccontr)
      assume "\<not> i < K - 1"
      then have "K - 1 \<le> i" by simp
      then have "(K - 1) * q \<le> i * q" using q0 by (rule mult_right_mono)
      then show False using lo False by linarith
    qed
    show ?thesis
    proof (rule ex1I [of _ i])
      show "i \<in> {0..K - 1} \<and> fst (workerRange K h i) \<le> y \<and> y < snd (workerRange K h i)"
        using i0 iK lo hi inner [of i] by simp
    next
      fix j
      assume j: "j \<in> {0..K - 1} \<and> fst (workerRange K h j) \<le> y \<and> y < snd (workerRange K h j)"
      have ne: "j \<noteq> K - 1" using j last False by blast
      have "j * q \<le> y" "y < (j + 1) * q" using j inner [OF ne] by blast+
      then show "j = i" unfolding i_def by (rule block_index_unique [OF qpos])
    qed
  qed
qed

text \<open>
  Claim C5. For an output height \<open>outH \<ge> 1\<close> and a worker count \<open>K \<ge> 1\<close>, the
  ranges of the \<open>K\<close> workers, taken in worker order, concatenate to the rows
  \<open>0, \<dots>, outH - 1\<close> in increasing order: they are contiguous, do not overlap and
  leave no gap. Every range but the last holds \<open>outH div K\<close> rows (the floor of
  \<open>outH / K\<close>), the last one also takes the \<open>outH mod K\<close> remaining rows, and every
  row belongs to exactly one worker.
\<close>

theorem row_partition:
  assumes "1 \<le> outH" "1 \<le> K"
  shows "concat (map (\<lambda>i. [fst (workerRange K outH i)..snd (workerRange K outH i) - 1]) [0..K - 1])
           = [0..outH - 1]
       \<and> (\<forall>i\<in>{0..K - 2}. snd (workerRange K outH i) - fst (workerRange K outH i) = outH div K)
       \<and> snd (workerRange K outH (K - 1)) - fst (workerRange K outH (K - 1))
           = outH div K + outH mod K
       \<and> fst (workerRange K outH 0) = 0
       \<and> (\<forall>i\<in>{0..K - 2}. snd (workerRange K outH i) = fst (workerRange K outH (i + 1)))
       \<and> snd (workerRange K outH (K - 1)) = outH
       \<and> (\<forall>y\<in>{0..outH - 1}. \<exists>!i. i \<in> {0..K - 1}
             \<and> fst (workerRange K outH i) \<le> y \<and> y < snd (workerRange K outH i))"
proof -
  have q: "quo outH K = outH div K" using assms by (simp add: quo_nonneg)
  have c1: "concat (map (\<lambda>i. [fst (workerRange K outH i)..snd (workerRange K outH i) - 1]) [0..K - 1])
           = [0..outH - 1]"
    using assms by (intro ranges_concat) simp_all
  have c2: "\<forall>i\<in>{0..K - 2}. snd (workerRange K outH i) - fst (workerRange K outH i) = outH div K"
    by (auto simp: workerRange_fst workerRange_snd q algebra_simps)
  have c3: "snd (workerRange K outH (K - 1)) - fst (workerRange K outH (K - 1))
           = outH div K + outH mod K"
    using mult_div_mod_eq [of K outH] by (simp add: workerRange_fst workerRange_snd q algebra_simps)
  have c4: "fst (workerRange K outH 0) = 0" by (simp add: workerRange_fst)
  have c5: "\<forall>i\<in>{0..K - 2}. snd (workerRange K outH i) = fst (workerRange K outH (i + 1))"
    by (auto simp: workerRange_fst workerRange_snd)
  have c6: "snd (workerRange K outH (K - 1)) = outH" by (simp add: workerRange_snd)
  have c7: "\<forall>y\<in>{0..outH - 1}. \<exists>!i. i \<in> {0..K - 1}
             \<and> fst (workerRange K outH i) \<le> y \<and> y < snd (workerRange K outH i)"
    using assms by (intro ballI row_owner_unique) simp_all
  from c1 c2 c3 c4 c5 c6 c7 show ?thesis by blast
qed

theorem row_partition_witness:
  "(1::int) \<le> 7 \<and> (1::int) \<le> 3
   \<and> concat (map (\<lambda>i. [fst (workerRange 3 7 i)..snd (workerRange 3 7 i) - 1]) [0..3 - 1]) = [0..7 - 1]
   \<and> map (workerRange 3 7) [0, 1, 2] = [(0, 2), (2, 4), (4, 7)]"
proof -
  have h: "(1::int) \<le> 7" "(1::int) \<le> 3" by simp_all
  have "map (workerRange 3 7) [0, 1, 2] = [(0, 2), (2, 4), (4, 7)]"
    by (simp add: workerRange_def quo_def Let_def)
  moreover note row_partition [OF h, THEN conjunct1]
  ultimately show ?thesis using h by blast
qed

subsection \<open>The window statistic computes the specified formula\<close>

lemma timeSeries_Fin: "timeSeries images px py = map Fin (grayValues images px py)"
  by (simp add: timeSeries_def grayValues_def)

lemma fold_fadd_Fin: "fold (\<lambda>v mean. fadd mean v) (map Fin xs) (Fin a) = Fin (a + sum_list xs)"
  by (induction xs arbitrary: a) (simp_all add: add.assoc)

lemma fdiv_Fin: "b \<noteq> 0 \<Longrightarrow> fdiv (Fin a) (Fin b) = Fin (a / b)"
  by (simp add: fdiv_def)

lemma temporalMean_Fin: "xs \<noteq> [] \<Longrightarrow> temporalMean (map Fin xs) = Fin (spec_mean xs)"
  by (simp add: temporalMean_def fold_fadd_Fin fdiv_Fin spec_mean_def)

lemma fmul_Fin: "fmul (Fin a) (Fin b) = Fin (a * b)"
  by (simp add: fmul_def)

lemma fsub_Fin: "fsub (Fin a) (Fin b) = Fin (a - b)"
  by (simp add: fsub_def)

lemma sumSquaredDiff_Fin_acc:
  "fold (\<lambda>v sumDiff2. let diff = fsub v (Fin m) in fadd sumDiff2 (fmul diff diff)) (map Fin xs) (Fin a)
     = Fin (a + (\<Sum>x\<leftarrow>xs. (x - m)\<^sup>2))"
  by (induction xs arbitrary: a) (simp_all add: fsub_Fin fmul_Fin power2_eq_square add.assoc)

lemma sumSquaredDiff_Fin:
  "sumSquaredDiff (map Fin xs) (Fin m) = Fin (\<Sum>x\<leftarrow>xs. (x - m)\<^sup>2)"
  using sumSquaredDiff_Fin_acc [of m xs 0] by (simp add: sumSquaredDiff_def)

lemma sum_list_squares_nonneg: "0 \<le> (\<Sum>x\<leftarrow>xs. (x - m)\<^sup>2)" for m :: real
  by (rule sum_list_nonneg) auto

lemma spec_sampleVariance_nonneg: "2 \<le> length xs \<Longrightarrow> 0 \<le> spec_sampleVariance xs"
  by (simp add: spec_sampleVariance_def sum_list_squares_nonneg)

lemma temporalStdDev_Fin:
  assumes "2 \<le> length xs"
  shows "temporalStdDev (map Fin xs) = Fin (spec_stdDev xs)"
proof -
  have ne: "xs \<noteq> []" using assms by auto
  have d: "real_of_int (int (length xs) - 1) = real (length xs) - 1" by simp
  have nz: "real (length xs) - 1 \<noteq> 0" using assms by simp
  have "fdiv (sumSquaredDiff (map Fin xs) (Fin (spec_mean xs))) (Fin (real_of_int (int (length xs) - 1)))
      = Fin (spec_sampleVariance xs)"
    unfolding sumSquaredDiff_Fin d using nz by (simp add: fdiv_Fin spec_sampleVariance_def)
  then show ?thesis
    using spec_sampleVariance_nonneg [OF assms]
    by (simp add: temporalStdDev_def temporalMean_Fin [OF ne] spec_stdDev_def Let_def)
qed

lemma pixelStep_Fin:
  assumes "2 \<le> length images"
  shows "pixelStep images px py (Fin s)
         = Fin (s + spec_pixelContrast (grayValues images px py))"
proof -
  have len: "2 \<le> length (grayValues images px py)" using assms by (simp add: grayValues_def)
  then have ne: "grayValues images px py \<noteq> []" by auto
  show ?thesis
    by (simp add: pixelStep_def timeSeries_Fin temporalMean_Fin [OF ne] temporalStdDev_Fin [OF len]
        spec_pixelContrast_def fdiv_Fin Let_def)
qed

lemma spec_pixelContrast_nonneg: "2 \<le> length xs \<Longrightarrow> 0 \<le> spec_pixelContrast xs"
  by (simp add: spec_pixelContrast_def spec_stdDev_def spec_sampleVariance_nonneg)

lemma fold_pixelStep_row:
  assumes "2 \<le> length images"
  shows "fold (\<lambda>dx sumVar. pixelStep images (x + dx) py sumVar) ds (Fin s)
         = Fin (s + (\<Sum>dx\<leftarrow>ds. spec_pixelContrast (grayValues images (x + dx) py)))"
  by (induction ds arbitrary: s) (simp_all add: pixelStep_Fin [OF assms] add.assoc)

lemma fold_pixelStep_window:
  assumes "2 \<le> length images"
  shows "fold (\<lambda>dy sumVar. fold (\<lambda>dx sumVar. pixelStep images (x + dx) (y + dy) sumVar) ds sumVar)
           es (Fin s)
         = Fin (s + (\<Sum>dy\<leftarrow>es. \<Sum>dx\<leftarrow>ds. spec_pixelContrast (grayValues images (x + dx) (y + dy))))"
  by (induction es arbitrary: s) (simp_all add: fold_pixelStep_row [OF assms] add.assoc)

lemma sum_list_upto_shift:
  "(\<Sum>d\<leftarrow>[0..S - 1]. f (x + d)) = (\<Sum>p = x..x + S - 1. f p)" for f :: "int \<Rightarrow> real"
proof -
  have "(\<Sum>d\<leftarrow>[0..S - 1]. f (x + d)) = (\<Sum>d\<in>{0..S - 1}. f (x + d))"
    by (simp add: sum_list_distinct_conv_sum_set)
  also have "\<dots> = (\<Sum>p\<in>{x..x + S - 1}. f p)"
    by (rule sum.reindex_bij_witness [of _ "\<lambda>p. p - x" "\<lambda>d. x + d"]) auto
  finally show ?thesis .
qed

lemma temporalWindowContrast_Fin:
  assumes "2 \<le> length images" "WindowSize (algorithm r) \<noteq> 0"
  shows "temporalWindowContrast r images x y
         = Fin ((\<Sum>py = y..y + WindowSize (algorithm r) - 1. \<Sum>px = x..x + WindowSize (algorithm r) - 1.
                  spec_pixelContrast (grayValues images px py))
                / real_of_int (WindowSize (algorithm r) * WindowSize (algorithm r)))"
proof -
  let ?S = "WindowSize (algorithm r)"
  have "(\<Sum>dy\<leftarrow>[0..?S - 1]. \<Sum>dx\<leftarrow>[0..?S - 1]. spec_pixelContrast (grayValues images (x + dx) (y + dy)))
      = (\<Sum>py = y..y + ?S - 1. \<Sum>px = x..x + ?S - 1. spec_pixelContrast (grayValues images px py))"
  proof -
    have "(\<Sum>dy\<leftarrow>[0..?S - 1]. \<Sum>dx\<leftarrow>[0..?S - 1]. spec_pixelContrast (grayValues images (x + dx) (y + dy)))
        = (\<Sum>dy\<leftarrow>[0..?S - 1]. \<Sum>px = x..x + ?S - 1. spec_pixelContrast (grayValues images px (y + dy)))"
      by (simp only: sum_list_upto_shift [where f = "\<lambda>px. spec_pixelContrast (grayValues images px _)"])
    also have "\<dots> = (\<Sum>py = y..y + ?S - 1. \<Sum>px = x..x + ?S - 1. spec_pixelContrast (grayValues images px py))"
      by (rule sum_list_upto_shift [where f = "\<lambda>py. \<Sum>px = x..x + ?S - 1. spec_pixelContrast (grayValues images px py)"])
    finally show ?thesis .
  qed
  then show ?thesis
    using assms(2)
    by (simp add: temporalWindowContrast_def Let_def fold_pixelStep_window [OF assms(1)] fdiv_Fin)
qed

lemma image_Rect_origin:
  "0 \<le> W \<Longrightarrow> 0 \<le> H \<Longrightarrow> image_Rect 0 0 W H = \<lparr>MinX = 0, MinY = 0, MaxX = W, MaxY = H\<rparr>"
  by (simp add: image_Rect_def)

lemma GrayAt_isFrame:
  assumes "isFrame W H f" "0 \<le> px" "px < W" "0 \<le> py" "py < H"
  shows "real (unat (GrayAt f px py)) = spec_intensity f px py"
proof -
  have R: "Rect f = \<lparr>MinX = 0, MinY = 0, MaxX = W, MaxY = H\<rparr>" "Stride f = W"
    using assms(1) by (simp_all add: isFrame_def image_Rect_origin)
  show ?thesis
    using assms(2-5) by (simp add: GrayAt_def Point_In_def PixOffset_def spec_intensity_def R Dx_def)
qed

lemma grayValues_isFrame:
  assumes "list_all (isFrame W H) images" "0 \<le> px" "px < W" "0 \<le> py" "py < H"
  shows "grayValues images px py = map (\<lambda>f. spec_intensity f px py) images"
  unfolding grayValues_def
proof (rule map_cong [OF refl])
  fix f assume "f \<in> set images"
  then have "isFrame W H f" using assms(1) by (simp add: list_all_iff)
  then show "real (unat (GrayAt f px py)) = spec_intensity f px py"
    using assms(2-5) by (rule GrayAt_isFrame)
qed

text \<open>
  Claim C1. For at least two frames of identical dimensions \<open>W \<times> H\<close>, a window size
  \<open>1 \<le> S \<le> min W H\<close> and a window origin \<open>(x, y)\<close> that keeps the window inside the
  frames, \<open>temporalWindowContrast\<close> returns the finite number that the specification's
  formulas give: the average over the \<open>S * S\<close> window pixels of the pixel contrast,
  with mean \<open>sum / N\<close>, sample variance with divisor \<open>N - 1\<close>, standard deviation its
  square root, and pixel contrast \<open>stdDev / mean\<close> when \<open>mean > 0\<close> and \<open>0\<close> otherwise.
\<close>

theorem window_contrast_formula:
  assumes "validInput r images W H"
    and "0 \<le> x" "x + WindowSize (algorithm r) \<le> W"
    and "0 \<le> y" "y + WindowSize (algorithm r) \<le> H"
  shows "temporalWindowContrast r images x y
         = Fin (spec_windowContrast (WindowSize (algorithm r)) images x y)"
proof -
  let ?S = "WindowSize (algorithm r)"
  have len: "2 \<le> length images" and fr: "list_all (isFrame W H) images" and S: "1 \<le> ?S"
    using assms(1) by (simp_all add: validInput_def)
  have "(\<Sum>py = y..y + ?S - 1. \<Sum>px = x..x + ?S - 1. spec_pixelContrast (grayValues images px py))
      = (\<Sum>py = y..y + ?S - 1. \<Sum>px = x..x + ?S - 1.
           spec_pixelContrast (map (\<lambda>f. spec_intensity f px py) images))"
  proof (intro sum.cong refl)
    fix py px assume "py \<in> {y..y + ?S - 1}" "px \<in> {x..x + ?S - 1}"
    then have "0 \<le> px" "px < W" "0 \<le> py" "py < H" using assms(2-5) by auto
    then show "spec_pixelContrast (grayValues images px py)
        = spec_pixelContrast (map (\<lambda>f. spec_intensity f px py) images)"
      by (simp only: grayValues_isFrame [OF fr])
  qed
  then show ?thesis
    using S by (simp add: temporalWindowContrast_Fin [OF len] spec_windowContrast_def)
qed

lemma isFrame_uniformFrame: "0 \<le> W \<Longrightarrow> 0 \<le> H \<Longrightarrow> isFrame W H (uniformFrame W H v)"
  by (simp add: isFrame_def uniformFrame_def)

lemma WindowSize_runnerWith: "WindowSize (algorithm (runnerWith S)) = S"
  by (simp add: runnerWith_def NewRunner_def)

theorem window_contrast_formula_witness:
  "validInput (runnerWith 2) [uniformFrame 3 3 50, uniformFrame 3 3 150] 3 3
   \<and> (0::int) \<le> 1 \<and> 1 + WindowSize (algorithm (runnerWith 2)) \<le> 3
   \<and> (0::int) \<le> 0 \<and> 0 + WindowSize (algorithm (runnerWith 2)) \<le> 3
   \<and> temporalWindowContrast (runnerWith 2) [uniformFrame 3 3 50, uniformFrame 3 3 150] 1 0
       = Fin (spec_windowContrast (WindowSize (algorithm (runnerWith 2)))
               [uniformFrame 3 3 50, uniformFrame 3 3 150] 1 0)"
proof -
  have v: "validInput (runnerWith 2) [uniformFrame 3 3 50, uniformFrame 3 3 150] 3 3"
    by (simp add: validInput_def isFrame_uniformFrame WindowSize_runnerWith)
  have b: "(0::int) \<le> 1" "1 + WindowSize (algorithm (runnerWith 2)) \<le> 3"
    "(0::int) \<le> 0" "0 + WindowSize (algorithm (runnerWith 2)) \<le> 3"
    by (simp_all add: WindowSize_runnerWith)
  from window_contrast_formula [OF v b] v b show ?thesis by blast
qed

subsection \<open>Finite and non-negative contrast\<close>

lemma wellFormed_uniformFrame: "0 \<le> W \<Longrightarrow> 0 \<le> H \<Longrightarrow> wellFormed (uniformFrame W H v)"
  by (simp add: wellFormed_def isFrame_def uniformFrame_def image_Rect_def Dx_def Dy_def)


lemma wellFormed_frameOf:
  "0 \<le> W \<Longrightarrow> 0 \<le> H \<Longrightarrow> length pix = nat (W * H) \<Longrightarrow> wellFormed (frameOf W H pix)"
  by (simp add: wellFormed_def isFrame_def frameOf_def image_Rect_def Dx_def Dy_def)

lemma window_sum_nonneg:
  assumes "2 \<le> length images"
  shows "0 \<le> (\<Sum>py = y..y + S - 1. \<Sum>px = x..x + S - 1.
                  spec_pixelContrast (grayValues images px py))"
proof (intro sum_nonneg spec_pixelContrast_nonneg)
  show "2 \<le> length (grayValues images px py)" for px py
    using assms by (simp add: grayValues_def)
qed

lemma temporalWindowContrast_nonneg:
  assumes "2 \<le> length images" "WindowSize (algorithm r) \<noteq> 0"
  shows "\<exists>v. temporalWindowContrast r images x y = Fin v \<and> 0 \<le> v"
  using window_sum_nonneg [OF assms(1)]
  by (simp add: temporalWindowContrast_Fin [OF assms] zero_le_mult_iff)

lemma pixelStep_dark:
  assumes "\<forall>img\<in>set images. GrayAt img px py = 0"
  shows "pixelStep images px py sumVar = sumVar"
proof -
  have "map (\<lambda>img. real (unat (GrayAt img px py))) images = map (\<lambda>img. 0) images"
    using assms by (intro map_cong) simp_all
  then have gv: "grayValues images px py = replicate (length images) 0"
    by (simp add: grayValues_def map_replicate_const)
  have acc: "fold (\<lambda>v mean. fadd mean v) (timeSeries images px py) (Fin 0) = Fin 0"
    unfolding timeSeries_Fin fold_fadd_Fin gv by (simp add: sum_list_replicate)
  have len: "length (timeSeries images px py) = length images"
    by (simp add: timeSeries_def)
  have "temporalMean (timeSeries images px py) = Fin 0 \<or> temporalMean (timeSeries images px py) = NaN"
    unfolding temporalMean_def acc len by (simp add: fdiv_def)
  then have "\<not> fgt (temporalMean (timeSeries images px py)) (Fin 0)" by auto
  then show ?thesis by (simp add: pixelStep_def Let_def)
qed

text \<open>
  Claim C6. For at least two frames and a window size \<open>S \<ge> 1\<close>, the value that
  \<open>temporalWindowContrast\<close> returns at any window origin is a finite number, never
  \<open>NaN\<close> or an infinity, and it is not negative. A pixel whose intensity is 0 in every
  frame leaves the accumulator of the window as it was: it contributes exactly 0.
\<close>

theorem contrast_nonneg_finite:
  assumes "2 \<le> length images" "1 \<le> WindowSize (algorithm r)" "list_all wellFormed images"
  shows "(\<exists>v. temporalWindowContrast r images x y = Fin v \<and> 0 \<le> v)
       \<and> (\<forall>px py sumVar. (\<forall>img\<in>set images. GrayAt img px py = 0)
             \<longrightarrow> pixelStep images px py sumVar = sumVar)"
  using temporalWindowContrast_nonneg [OF assms(1), of r x y] assms(2) pixelStep_dark
  by auto

theorem contrast_nonneg_finite_witness:
  "2 \<le> length [uniformFrame 2 2 0, uniformFrame 2 2 0]
   \<and> 1 \<le> WindowSize (algorithm (runnerWith 1))
   \<and> list_all wellFormed [uniformFrame 2 2 0, uniformFrame 2 2 0]
   \<and> (\<exists>v. temporalWindowContrast (runnerWith 1) [uniformFrame 2 2 0, uniformFrame 2 2 0] 0 0 = Fin v
          \<and> 0 \<le> v)
   \<and> list_all (\<lambda>img. GrayAt img 1 1 = 0) [uniformFrame 2 2 0, uniformFrame 2 2 0]
   \<and> pixelStep [uniformFrame 2 2 0, uniformFrame 2 2 0] 1 1 (Fin 0) = Fin 0"
proof -
  have h: "2 \<le> length [uniformFrame 2 2 0, uniformFrame 2 2 0]"
    "1 \<le> WindowSize (algorithm (runnerWith 1))"
    "list_all wellFormed [uniformFrame 2 2 0, uniformFrame 2 2 0]"
    by (simp_all add: WindowSize_runnerWith wellFormed_uniformFrame)
  have d: "\<forall>img\<in>set [uniformFrame 2 2 0, uniformFrame 2 2 0]. GrayAt img 1 1 = 0"
    by (simp add: GrayAt_def uniformFrame_def PixOffset_def image_Rect_def Point_In_def)
  then have l: "list_all (\<lambda>img. GrayAt img 1 1 = 0) [uniformFrame 2 2 0, uniformFrame 2 2 0]"
    by (simp add: list_all_iff)
  from contrast_nonneg_finite [OF h, of 0 0] d h l show ?thesis by blast
qed

subsection \<open>Locality of the window statistic\<close>

lemma timeSeries_cong:
  assumes "length images = length images'"
    and "\<forall>t<length images. GrayAt (images ! t) px py = GrayAt (images' ! t) px py"
  shows "timeSeries images px py = timeSeries images' px py"
  using assms by (intro nth_equalityI) (simp_all add: timeSeries_def)

text \<open>
  Claim C10. The value of \<open>temporalWindowContrast\<close> at the origin \<open>(x, y)\<close> depends only
  on the pixels of the window \<open>x..x+S-1\<close>, \<open>y..y+S-1\<close>: two frame sequences of the same
  length that agree on every pixel of the window in every frame give the same value,
  whatever the pixels outside the window are.
\<close>

theorem window_locality:
  assumes "list_all wellFormed images" "list_all wellFormed images'"
    and "length images = length images'"
    and "\<forall>t<length images. \<forall>dx\<in>{0..WindowSize (algorithm r) - 1}.
           \<forall>dy\<in>{0..WindowSize (algorithm r) - 1}.
             GrayAt (images ! t) (x + dx) (y + dy) = GrayAt (images' ! t) (x + dx) (y + dy)"
  shows "temporalWindowContrast r images x y = temporalWindowContrast r images' x y"
proof -
  let ?S = "WindowSize (algorithm r)"
  have step: "pixelStep images (x + dx) (y + dy) = pixelStep images' (x + dx) (y + dy)"
    if "dx \<in> set [0..?S - 1]" "dy \<in> set [0..?S - 1]" for dx dy
  proof -
    have "timeSeries images (x + dx) (y + dy) = timeSeries images' (x + dx) (y + dy)"
      using assms(3,4) that by (intro timeSeries_cong) auto
    then show ?thesis by (simp add: pixelStep_def fun_eq_iff)
  qed
  have row: "(\<lambda>sumVar. fold (\<lambda>dx. pixelStep images (x + dx) (y + dy)) [0..?S - 1] sumVar)
      = (\<lambda>sumVar. fold (\<lambda>dx. pixelStep images' (x + dx) (y + dy)) [0..?S - 1] sumVar)"
    if "dy \<in> set [0..?S - 1]" for dy
    using step [OF _ that] by (intro ext fold_cong) simp_all
  have "fold (\<lambda>dy sumVar. fold (\<lambda>dx. pixelStep images (x + dx) (y + dy)) [0..?S - 1] sumVar)
          [0..?S - 1] (Fin 0)
      = fold (\<lambda>dy sumVar. fold (\<lambda>dx. pixelStep images' (x + dx) (y + dy)) [0..?S - 1] sumVar)
          [0..?S - 1] (Fin 0)"
    using row by (intro fold_cong) simp_all
  then show ?thesis by (simp add: temporalWindowContrast_def Let_def)
qed

theorem window_locality_witness:
  "list_all wellFormed [frameOf 2 2 [1, 2, 3, 4]] \<and> list_all wellFormed [frameOf 2 2 [1, 9, 8, 7]]
   \<and> length [frameOf 2 2 [1, 2, 3, 4]] = length [frameOf 2 2 [1, 9, 8, 7]]
   \<and> WindowSize (algorithm (runnerWith 1)) = 1
   \<and> GrayAt (frameOf 2 2 [1, 2, 3, 4]) 0 0 = GrayAt (frameOf 2 2 [1, 9, 8, 7]) 0 0
   \<and> GrayAt (frameOf 2 2 [1, 2, 3, 4]) 1 1 \<noteq> GrayAt (frameOf 2 2 [1, 9, 8, 7]) 1 1
   \<and> temporalWindowContrast (runnerWith 1) [frameOf 2 2 [1, 2, 3, 4]] 0 0
       = temporalWindowContrast (runnerWith 1) [frameOf 2 2 [1, 9, 8, 7]] 0 0"
proof -
  have l: "length [frameOf 2 2 [1, 2, 3, 4]] = length [frameOf 2 2 [1, 9, 8, 7]]" by simp
  have a: "\<forall>t<length [frameOf 2 2 [1, 2, 3, 4]]. \<forall>dx\<in>{0..WindowSize (algorithm (runnerWith 1)) - 1}.
           \<forall>dy\<in>{0..WindowSize (algorithm (runnerWith 1)) - 1}.
             GrayAt ([frameOf 2 2 [1, 2, 3, 4]] ! t) (0 + dx) (0 + dy)
             = GrayAt ([frameOf 2 2 [1, 9, 8, 7]] ! t) (0 + dx) (0 + dy)"
    by (simp add: WindowSize_runnerWith GrayAt_def frameOf_def image_Rect_def Point_In_def
        PixOffset_def)
  have f: "list_all wellFormed [frameOf 2 2 [1, 2, 3, 4]]"
    "list_all wellFormed [frameOf 2 2 [1, 9, 8, 7]]"
    by (simp_all add: wellFormed_frameOf)
  have g: "WindowSize (algorithm (runnerWith 1)) = 1"
    "GrayAt (frameOf 2 2 [1, 2, 3, 4]) 0 0 = GrayAt (frameOf 2 2 [1, 9, 8, 7]) 0 0"
    "GrayAt (frameOf 2 2 [1, 2, 3, 4]) 1 1 \<noteq> GrayAt (frameOf 2 2 [1, 9, 8, 7]) 1 1"
    by (simp_all add: WindowSize_runnerWith GrayAt_def frameOf_def image_Rect_def Point_In_def
        PixOffset_def)
  from window_locality [OF f l a] f l g show ?thesis by blast
qed

subsection \<open>The row buffer does not depend on the schedule\<close>

lemma goroutine_writes:
  assumes "0 \<le> h" "1 \<le> K"
  shows "concat (map (goroutine r images w) (map (workerRange K h) [0..K - 1]))
         = map (\<lambda>y. (y, contrastRow r images w y)) [0..h - 1]"
proof -
  have "concat (map (goroutine r images w) (map (workerRange K h) [0..K - 1]))
      = map (\<lambda>y. (y, contrastRow r images w y))
          (concat (map (\<lambda>i. [fst (workerRange K h i)..snd (workerRange K h i) - 1]) [0..K - 1]))"
    by (simp add: map_concat goroutine_def comp_def)
  then show ?thesis by (simp only: ranges_concat [OF assms])
qed

lemma length_fold_writeRow: "length (fold writeRow ws buf) = length buf"
  by (induction ws arbitrary: buf) (simp_all add: writeRow_def)

lemma nth_fold_writeRow:
  assumes "\<forall>w\<in>set ws. 0 \<le> fst w \<and> snd w = row (fst w)" "j < length buf"
  shows "fold writeRow ws buf ! j = (if int j \<in> fst ` set ws then row (int j) else buf ! j)"
  using assms
proof (induction ws arbitrary: buf)
  case Nil
  then show ?case by simp
next
  case (Cons w ws)
  have w: "0 \<le> fst w" "snd w = row (fst w)" using Cons.prems(1) by simp_all
  have len: "j < length (writeRow w buf)" using Cons.prems(2) by (simp add: writeRow_def)
  have "fold writeRow (w # ws) buf ! j = fold writeRow ws (writeRow w buf) ! j" by simp
  also have "\<dots> = (if int j \<in> fst ` set ws then row (int j) else writeRow w buf ! j)"
    using Cons.prems(1) len by (intro Cons.IH) simp_all
  also have "writeRow w buf ! j = (if fst w = int j then row (int j) else buf ! j)"
    using w Cons.prems(2) by (auto simp: writeRow_def nth_list_update)
  finally show ?case by auto
qed

lemma buffer_any_order:
  assumes "0 \<le> h" "set ws = (\<lambda>y. (y, row y)) ` {0..h - 1}"
  shows "fold writeRow ws (replicate (nat h) []) = map row [0..h - 1]"
proof (rule nth_equalityI)
  show "length (fold writeRow ws (replicate (nat h) [])) = length (map row [0..h - 1])"
    using assms(1) by (simp add: length_fold_writeRow)
next
  fix j assume "j < length (fold writeRow ws (replicate (nat h) []))"
  then have j: "j < nat h" by (simp add: length_fold_writeRow)
  have ws: "\<forall>w\<in>set ws. 0 \<le> fst w \<and> snd w = row (fst w)" using assms(2) by auto
  have "int j \<in> fst ` set ws" using j assms(2) by (auto simp: image_image)
  then have "fold writeRow ws (replicate (nat h) []) ! j = row (int j)"
    using nth_fold_writeRow [OF ws, of j "replicate (nat h) []"] j by simp
  moreover have "map row [0..h - 1] ! j = row (int j)" using j by simp
  ultimately show "fold writeRow ws (replicate (nat h) []) ! j = map row [0..h - 1] ! j" by simp
qed

lemma listContrast_any_schedule:
  assumes "0 \<le> h" "1 \<le> K" "\<forall>ws. mset (schedule ws) = mset ws"
  shows "fold writeRow
           (schedule (concat (map (goroutine r images w) (map (workerRange K h) [0..K - 1]))))
           (replicate (nat h) [])
         = map (contrastRow r images w) [0..h - 1]"
proof -
  let ?ws = "concat (map (goroutine r images w) (map (workerRange K h) [0..K - 1]))"
  have "set (schedule ?ws) = set ?ws" using assms(3) by (metis set_mset_mset)
  also have "\<dots> = (\<lambda>y. (y, contrastRow r images w y)) ` {0..h - 1}"
    unfolding goroutine_writes [OF assms(1,2)] by simp
  finally show ?thesis by (rule buffer_any_order [OF assms(1)])
qed

subsection \<open>The output image\<close>

lemma Dx_image_Rect: "0 \<le> w \<Longrightarrow> Dx (image_Rect 0 0 w h) = w"
  by (simp add: Dx_def image_Rect_def)

lemma Dy_image_Rect: "0 \<le> h \<Longrightarrow> Dy (image_Rect 0 0 w h) = h"
  by (simp add: Dy_def image_Rect_def)

lemma isFrame_NewGray: "0 \<le> w \<Longrightarrow> 0 \<le> h \<Longrightarrow> isFrame w h (NewGray (image_Rect 0 0 w h))"
  by (simp add: isFrame_def NewGray_def Dx_image_Rect Dy_image_Rect)

lemma isFrame_SetGray: "isFrame w h m \<Longrightarrow> isFrame w h (SetGray m x y c)"
  by (simp add: isFrame_def SetGray_def)

lemma offset_less:
  fixes w h x y :: int
  assumes "0 \<le> x" "x < w" "0 \<le> y" "y < h"
  shows "0 \<le> y * w + x" "y * w + x < w * h"
proof -
  show "0 \<le> y * w + x" using assms by simp
  have "y * w + x < (y + 1) * w" using assms by (simp add: algebra_simps)
  also have "\<dots> \<le> h * w" using assms by (intro mult_right_mono) simp_all
  finally show "y * w + x < w * h" by (simp add: mult.commute)
qed

lemma offset_inj:
  fixes w x y x' y' :: int
  assumes "0 \<le> x" "x < w" "0 \<le> x'" "x' < w" "y * w + x = y' * w + x'"
  shows "x = x' \<and> y = y'"
proof -
  have "x = (y * w + x) mod w" using assms(1,2) by simp
  also have "\<dots> = (y' * w + x') mod w" by (simp only: assms(5))
  also have "\<dots> = x'" using assms(3,4) by simp
  finally have x: "x = x'" .
  have "y = (y * w + x) div w" using assms(1,2) by simp
  also have "\<dots> = (y' * w + x') div w" by (simp only: assms(5))
  also have "\<dots> = y'" using assms(3,4) by simp
  finally have "y = y'" .
  with x show ?thesis by simp
qed

lemma Pix_SetGray:
  assumes "isFrame w h m" "0 \<le> x" "x < w" "0 \<le> y" "y < h"
    and "0 \<le> x'" "x' < w" "0 \<le> y'" "y' < h"
  shows "Pix (SetGray m x y c) ! nat (y' * w + x')
         = (if x' = x \<and> y' = y then c else Pix m ! nat (y' * w + x'))"
proof -
  have R: "Rect m = \<lparr>MinX = 0, MinY = 0, MaxX = w, MaxY = h\<rparr>" "Stride m = w"
    "length (Pix m) = nat (w * h)"
    using assms(1) by (simp_all add: isFrame_def image_Rect_origin)
  have In: "Point_In x y (Rect m)" using assms(2-5) by (simp add: Point_In_def R)
  have off: "PixOffset m x y = y * w + x" by (simp add: PixOffset_def R)
  have eq: "nat (y * w + x) = nat (y' * w + x') \<longleftrightarrow> x' = x \<and> y' = y"
  proof
    assume "nat (y * w + x) = nat (y' * w + x')"
    then have "y * w + x = y' * w + x'"
      using offset_less(1) [OF assms(2-5)] offset_less(1) [OF assms(6-9)] by simp
    then show "x' = x \<and> y' = y" using offset_inj [OF assms(2,3,6,7)] by blast
  qed simp
  have "Pix (SetGray m x y c) ! nat (y' * w + x')
      = (Pix m)[nat (y * w + x) := c] ! nat (y' * w + x')"
    by (simp add: SetGray_def In off)
  also have "\<dots> = (if nat (y * w + x) = nat (y' * w + x') then c else Pix m ! nat (y' * w + x'))"
    using offset_less [OF assms(2-5)] by (simp add: nth_list_update R)
  finally show ?thesis by (simp only: eq)
qed

lemma isFrame_fold_row:
  "isFrame w h m \<Longrightarrow> isFrame w h (fold (\<lambda>x m. SetGray m x y (g x)) xs m)"
  by (induction xs arbitrary: m) (simp_all add: isFrame_SetGray)

lemma Pix_fold_row:
  assumes "isFrame w h m" "0 \<le> y" "y < h" "set xs \<subseteq> {0..w - 1}"
    and "0 \<le> x'" "x' < w" "0 \<le> y'" "y' < h"
  shows "Pix (fold (\<lambda>x m. SetGray m x y (g x)) xs m) ! nat (y' * w + x')
         = (if y' = y \<and> x' \<in> set xs then g x' else Pix m ! nat (y' * w + x'))"
  using assms(1,4)
proof (induction xs arbitrary: m)
  case Nil
  then show ?case by simp
next
  case (Cons x xs)
  have x: "0 \<le> x" "x < w" using Cons.prems(2) by simp_all
  have fr: "isFrame w h (SetGray m x y (g x))" using Cons.prems(1) by (rule isFrame_SetGray)
  have "Pix (fold (\<lambda>x m. SetGray m x y (g x)) (x # xs) m) ! nat (y' * w + x')
      = (if y' = y \<and> x' \<in> set xs then g x' else Pix (SetGray m x y (g x)) ! nat (y' * w + x'))"
    using Cons.IH [OF fr] Cons.prems(2) by simp
  also have "Pix (SetGray m x y (g x)) ! nat (y' * w + x')
      = (if x' = x \<and> y' = y then g x else Pix m ! nat (y' * w + x'))"
    using Cons.prems(1) x assms(2,3,5-8) by (rule Pix_SetGray)
  finally show ?case by auto
qed

lemma isFrame_fold_rows:
  "isFrame w h m \<Longrightarrow>
   isFrame w h (fold (\<lambda>y m. fold (\<lambda>x m. SetGray m x y (g x y)) xs m) ys m)"
  by (induction ys arbitrary: m) (simp_all add: isFrame_fold_row)

lemma Pix_fold_rows:
  assumes "isFrame w h m" "set ys \<subseteq> {0..h - 1}"
    and "0 \<le> x'" "x' < w" "0 \<le> y'" "y' < h"
  shows "Pix (fold (\<lambda>y m. fold (\<lambda>x m. SetGray m x y (g x y)) [0..w - 1] m) ys m) ! nat (y' * w + x')
         = (if y' \<in> set ys then g x' y' else Pix m ! nat (y' * w + x'))"
  using assms(1,2)
proof (induction ys arbitrary: m)
  case Nil
  then show ?case by simp
next
  case (Cons y ys)
  have y: "0 \<le> y" "y < h" using Cons.prems(2) by simp_all
  let ?m = "fold (\<lambda>x m. SetGray m x y (g x y)) [0..w - 1] m"
  have fr: "isFrame w h ?m" using Cons.prems(1) by (rule isFrame_fold_row)
  have "Pix (fold (\<lambda>y m. fold (\<lambda>x m. SetGray m x y (g x y)) [0..w - 1] m) (y # ys) m) ! nat (y' * w + x')
      = (if y' \<in> set ys then g x' y' else Pix ?m ! nat (y' * w + x'))"
    using Cons.IH [OF fr] Cons.prems(2) by simp
  also have "Pix ?m ! nat (y' * w + x')
      = (if y' = y \<and> x' \<in> set [0..w - 1] then g x' y else Pix m ! nat (y' * w + x'))"
    using Cons.prems(1) y _ assms(3-6) by (rule Pix_fold_row) simp
  finally show ?case using assms(3,4) by auto
qed

lemma cell_of_index:
  fixes w h :: int
  assumes "i < nat (w * h)" "0 \<le> w" "0 \<le> h"
  shows "0 \<le> int i mod w" "int i mod w < w" "0 \<le> int i div w" "int i div w < h"
    "nat (int i div w * w + int i mod w) = i"
proof -
  have wpos: "0 < w" using assms by (cases "w = 0") simp_all
  show "0 \<le> int i mod w" "int i mod w < w" using wpos by simp_all
  show "0 \<le> int i div w" using wpos by (simp add: pos_imp_zdiv_nonneg_iff)
  show "int i div w < h"
  proof (rule ccontr)
    assume "\<not> int i div w < h"
    then have "h * w \<le> (int i div w) * w" using wpos by (intro mult_right_mono) simp_all
    also have "\<dots> \<le> int i"
      using div_mult_mod_eq [of "int i" w] pos_mod_sign [OF wpos, of "int i"] by linarith
    finally show False using assms by (simp add: mult.commute)
  qed
  show "nat (int i div w * w + int i mod w) = i" by simp
qed

lemma isFrame_buildImage:
  assumes "0 \<le> w" "0 \<le> h"
  shows "isFrame w h (buildImage u w h buf)"
  unfolding buildImage_def by (intro isFrame_fold_rows isFrame_NewGray assms)

lemma buildImage_closed:
  assumes "0 \<le> w" "0 \<le> h"
  shows "buildImage u w h buf
         = \<lparr>Pix = map (\<lambda>i. scaleContrast u (buf ! nat (int i div w) ! nat (int i mod w)))
                    [0..<nat (w * h)],
            Stride = w, Rect = image_Rect 0 0 w h\<rparr>"
proof -
  let ?g = "\<lambda>x y. scaleContrast u (buf ! nat y ! nat x)"
  let ?m = "buildImage u w h buf"
  have fr: "isFrame w h ?m" using assms by (rule isFrame_buildImage)
  have fr0: "isFrame w h (NewGray (image_Rect 0 0 w h))" using assms by (rule isFrame_NewGray)
  have "Pix ?m = map (\<lambda>i. ?g (int i mod w) (int i div w)) [0..<nat (w * h)]"
  proof (rule nth_equalityI)
    show "length (Pix ?m) = length (map (\<lambda>i. ?g (int i mod w) (int i div w)) [0..<nat (w * h)])"
      using fr by (simp add: isFrame_def)
  next
    fix i assume "i < length (Pix ?m)"
    then have i: "i < nat (w * h)" using fr by (simp add: isFrame_def)
    note c = cell_of_index [OF i assms]
    have "Pix ?m ! nat (int i div w * w + int i mod w)
        = (if int i div w \<in> set [0..h - 1] then ?g (int i mod w) (int i div w)
           else Pix (NewGray (image_Rect 0 0 w h)) ! nat (int i div w * w + int i mod w))"
      unfolding buildImage_def using fr0 _ c(1-4) by (rule Pix_fold_rows) simp
    then have "Pix ?m ! i = ?g (int i mod w) (int i div w)"
      using c by simp
    then show "Pix ?m ! i = map (\<lambda>i. ?g (int i mod w) (int i div w)) [0..<nat (w * h)] ! i"
      using i by simp
  qed
  moreover have "Stride ?m = w" "Rect ?m = image_Rect 0 0 w h"
    using fr by (simp_all add: isFrame_def)
  moreover have "?m = \<lparr>Pix = Pix ?m, Stride = Stride ?m, Rect = Rect ?m\<rparr>" by simp
  ultimately show ?thesis by simp
qed

lemma calculateContrastMap_Cons:
  assumes "1 \<le> K" "\<forall>ws. mset (schedule ws) = mset ws"
    and "Dx (Rect img0) - WindowSize (algorithm r) + 1 = w"
    and "Dy (Rect img0) - WindowSize (algorithm r) + 1 = h"
    and "0 \<le> w" "0 \<le> h"
  shows "calculateContrastMap r u K schedule (img0 # rest)
         = Inr (buildImage u w h (map (contrastRow r (img0 # rest) w) [0..h - 1]))"
  unfolding calculateContrastMap_def list.case Let_def assms(3,4)
    listContrast_any_schedule [OF assms(6,1,2)]
  using assms(5,6) by simp

lemma calculateContrastMap_closed:
  assumes "1 \<le> K" "\<forall>ws. mset (schedule ws) = mset ws" "images \<noteq> []"
    and "0 \<le> widthOut r images" "0 \<le> heightOut r images"
  shows "calculateContrastMap r u K schedule images
         = Inr \<lparr>Pix = map (\<lambda>i. scaleContrast u
                           (temporalWindowContrast r images
                              (int i mod widthOut r images) (int i div widthOut r images)))
                        [0..<nat (widthOut r images * heightOut r images)],
                Stride = widthOut r images,
                Rect = image_Rect 0 0 (widthOut r images) (heightOut r images)\<rparr>"
proof -
  let ?w = "widthOut r images" and ?h = "heightOut r images"
  obtain img0 rest where im: "images = img0 # rest" using assms(3) by (cases images) auto
  have w: "Dx (Rect img0) - WindowSize (algorithm r) + 1 = ?w"
    and h: "Dy (Rect img0) - WindowSize (algorithm r) + 1 = ?h"
    by (simp_all add: widthOut_def heightOut_def im)
  have "calculateContrastMap r u K schedule (img0 # rest)
      = Inr (buildImage u ?w ?h (map (contrastRow r (img0 # rest) ?w) [0..?h - 1]))"
    using assms(1,2) w h assms(4,5) by (rule calculateContrastMap_Cons)
  then have "calculateContrastMap r u K schedule images
      = Inr (buildImage u ?w ?h (map (contrastRow r images ?w) [0..?h - 1]))"
    by (simp only: im [symmetric])
  also have "buildImage u ?w ?h (map (contrastRow r images ?w) [0..?h - 1])
      = \<lparr>Pix = map (\<lambda>i. scaleContrast u
                    (map (contrastRow r images ?w) [0..?h - 1] ! nat (int i div ?w) ! nat (int i mod ?w)))
                 [0..<nat (?w * ?h)],
         Stride = ?w, Rect = image_Rect 0 0 ?w ?h\<rparr>"
    using assms(4,5) by (rule buildImage_closed)
  also have "map (\<lambda>i. scaleContrast u
                    (map (contrastRow r images ?w) [0..?h - 1] ! nat (int i div ?w) ! nat (int i mod ?w)))
                 [0..<nat (?w * ?h)]
      = map (\<lambda>i. scaleContrast u (temporalWindowContrast r images (int i mod ?w) (int i div ?w)))
          [0..<nat (?w * ?h)]"
  proof (rule map_cong [OF refl])
    fix i assume "i \<in> set [0..<nat (?w * ?h)]"
    then have i: "i < nat (?w * ?h)" by simp
    note c = cell_of_index [OF i assms(4,5)]
    have "map (contrastRow r images ?w) [0..?h - 1] ! nat (int i div ?w)
        = contrastRow r images ?w (int i div ?w)"
      using c(3,4) by simp
    moreover have "contrastRow r images ?w (int i div ?w) ! nat (int i mod ?w)
        = temporalWindowContrast r images (int i mod ?w) (int i div ?w)"
      using c(1,2) by (simp add: contrastRow_def)
    ultimately show "scaleContrast u
          (map (contrastRow r images ?w) [0..?h - 1] ! nat (int i div ?w) ! nat (int i mod ?w))
        = scaleContrast u (temporalWindowContrast r images (int i mod ?w) (int i div ?w))"
      by simp
  qed
  finally show ?thesis .
qed

subsection \<open>The assembled map\<close>

lemma validInput_dims:
  assumes "validInput r images W H"
  shows "images \<noteq> []" "2 \<le> length images" "WindowSize (algorithm r) \<noteq> 0"
    "widthOut r images = W - WindowSize (algorithm r) + 1"
    "heightOut r images = H - WindowSize (algorithm r) + 1"
    "1 \<le> widthOut r images" "1 \<le> heightOut r images"
proof -
  show ne: "images \<noteq> []" and "2 \<le> length images" and "WindowSize (algorithm r) \<noteq> 0"
    using assms by (auto simp: validInput_def)
  have "isFrame W H (hd images)"
    using assms ne by (simp add: validInput_def list_all_iff)
  then have R: "Rect (hd images) = image_Rect 0 0 W H" "0 \<le> W" "0 \<le> H"
    by (simp_all add: isFrame_def)
  show w: "widthOut r images = W - WindowSize (algorithm r) + 1"
    by (simp add: widthOut_def R Dx_image_Rect)
  show h: "heightOut r images = H - WindowSize (algorithm r) + 1"
    by (simp add: heightOut_def R Dy_image_Rect)
  show "1 \<le> widthOut r images" "1 \<le> heightOut r images"
    using assms by (simp_all add: w h validInput_def)
qed

lemma scaleContrast_Fin:
  assumes "0 \<le> v"
  shows "scaleContrast u (Fin v) = word_of_int (min \<lfloor>v * 255\<rfloor> 255)"
proof -
  have "math_Min (fmul (Fin v) (Fin 255)) (Fin 255) = Fin (min (v * 255) 255)"
    by (simp add: fmul_Fin math_Min_def min_def)
  moreover have "0 \<le> min (v * 255) 255" "min (v * 255) 255 < 256" using assms by simp_all
  moreover have "\<lfloor>min (v * 255) 255\<rfloor> = min \<lfloor>v * 255\<rfloor> 255"
  proof (cases "v * 255 \<le> 255")
    case True
    then have "\<lfloor>v * 255\<rfloor> \<le> 255" by (simp add: floor_le_iff)
    with True show ?thesis by (simp add: min_def)
  next
    case False
    then have "255 \<le> \<lfloor>v * 255\<rfloor>" by (simp add: le_floor_iff)
    then have "min \<lfloor>v * 255\<rfloor> 255 = 255" by linarith
    moreover have "min (v * 255) 255 = 255" using False by linarith
    ultimately show ?thesis by simp
  qed
  ultimately show ?thesis by (simp add: scaleContrast_def)
qed

lemma uint_scaleContrast_Fin:
  assumes "0 \<le> v"
  shows "uint (scaleContrast u (Fin v)) = min \<lfloor>v * 255\<rfloor> 255"
proof -
  have "0 \<le> min \<lfloor>v * 255\<rfloor> 255" "min \<lfloor>v * 255\<rfloor> 255 < 256" using assms by simp_all
  then show ?thesis
    by (simp add: scaleContrast_Fin [OF assms] uint_word_of_int take_bit_int_eq_self)
qed

lemma scaleContrast_valid:
  assumes "2 \<le> length images" "WindowSize (algorithm r) \<noteq> 0"
  shows "scaleContrast u (temporalWindowContrast r images x y)
         = scaleContrast u' (temporalWindowContrast r images x y)"
proof -
  obtain v where "temporalWindowContrast r images x y = Fin v" "0 \<le> v"
    using temporalWindowContrast_nonneg [OF assms] by blast
  then show ?thesis by (simp add: scaleContrast_Fin)
qed

lemma GrayAt_closed:
  assumes "0 \<le> x" "x < w" "0 \<le> y" "y < h"
  shows "GrayAt \<lparr>Pix = map g [0..<nat (w * h)], Stride = w, Rect = image_Rect 0 0 w h\<rparr> x y
         = g (nat (y * w + x))"
proof -
  have "0 \<le> w" "0 \<le> h" using assms by simp_all
  then have R: "image_Rect 0 0 w h = \<lparr>MinX = 0, MinY = 0, MaxX = w, MaxY = h\<rparr>"
    by (rule image_Rect_origin)
  have "nat (y * w + x) < nat (w * h)" using offset_less [OF assms] by simp
  then show ?thesis
    using assms by (simp add: GrayAt_def Point_In_def PixOffset_def R)
qed

lemma calculateContrastMap_cell:
  assumes "1 \<le> K" "\<forall>ws. mset (schedule ws) = mset ws" "images \<noteq> []"
    and "0 \<le> x" "x < widthOut r images" "0 \<le> y" "y < heightOut r images"
  shows "\<exists>m. calculateContrastMap r u K schedule images = Inr m
           \<and> GrayAt m x y = scaleContrast u (temporalWindowContrast r images x y)"
proof -
  let ?w = "widthOut r images" and ?h = "heightOut r images"
  have wh: "0 \<le> ?w" "0 \<le> ?h" using assms(4-7) by simp_all
  have m: "x mod ?w = x" "x div ?w = 0" "?w \<noteq> 0" using assms(4,5) by simp_all
  have "0 \<le> y * ?w + x" using assms(4-7) by simp
  then have "int (nat (y * ?w + x)) = y * ?w + x" by simp
  then show ?thesis
    unfolding calculateContrastMap_closed [OF assms(1-3) wh]
    by (simp add: GrayAt_closed [OF assms(4-7)] m)
qed

text \<open>
  Claim C7. For a valid input with frames of \<open>W \<times> H\<close> pixels and window size \<open>S\<close>,
  \<open>calculateContrastMap\<close> returns a map, and the map is \<open>W - S + 1\<close> pixels wide and
  \<open>H - S + 1\<close> pixels high, for every worker count and every schedule.
\<close>

theorem output_dimensions:
  assumes "validInput r images W H" "1 \<le> K" "\<forall>ws. mset (schedule ws) = mset ws"
  shows "\<exists>m. calculateContrastMap r u K schedule images = Inr m
           \<and> Dx (Rect m) = W - WindowSize (algorithm r) + 1
           \<and> Dy (Rect m) = H - WindowSize (algorithm r) + 1"
proof -
  note d = validInput_dims [OF assms(1)]
  have wh: "0 \<le> widthOut r images" "0 \<le> heightOut r images" using d(6,7) by simp_all
  show ?thesis
    unfolding calculateContrastMap_closed [OF assms(2,3) d(1) wh]
    using wh by (simp add: Dx_image_Rect Dy_image_Rect d(4,5))
qed

theorem output_dimensions_witness:
  "validInput (runnerWith 2) [uniformFrame 4 3 7, uniformFrame 4 3 9] 4 3
   \<and> (1::int) \<le> 4 \<and> (\<forall>ws :: (int \<times> float64 list) list. mset (rev ws) = mset ws)
   \<and> (\<exists>m. calculateContrastMap (runnerWith 2) zeroByte 4 rev [uniformFrame 4 3 7, uniformFrame 4 3 9]
             = Inr m
          \<and> Dx (Rect m) = 4 - WindowSize (algorithm (runnerWith 2)) + 1
          \<and> Dy (Rect m) = 3 - WindowSize (algorithm (runnerWith 2)) + 1)"
proof -
  have v: "validInput (runnerWith 2) [uniformFrame 4 3 7, uniformFrame 4 3 9] 4 3"
    by (simp add: validInput_def isFrame_uniformFrame WindowSize_runnerWith)
  have k: "(1::int) \<le> 4" by simp
  have s: "\<forall>ws :: (int \<times> float64 list) list. mset (rev ws) = mset ws" by simp
  from output_dimensions [OF v k s, of zeroByte] v k s show ?thesis by blast
qed

text \<open>
  Claim C4. For a valid input the contrast map is the same for every worker count
  \<open>K \<ge> 1\<close>, for every order in which the row writes of the goroutines take effect
  (so for every repetition of the call) and for every choice the implementation makes
  for unrepresentable conversions; it is the map of the sequential row-by-row
  computation.
\<close>

theorem worker_count_invariance:
  assumes "validInput r images W H" "1 \<le> K" "1 \<le> K'"
    and "\<forall>ws. mset (schedule ws) = mset ws" "\<forall>ws. mset (schedule' ws) = mset ws"
  shows "calculateContrastMap r u K schedule images = calculateContrastMap r u' K' schedule' images
       \<and> calculateContrastMap r u K schedule images = Inr (sequentialContrastMap r u images)"
proof -
  note d = validInput_dims [OF assms(1)]
  let ?w = "widthOut r images" and ?h = "heightOut r images"
  have wh: "0 \<le> ?w" "0 \<le> ?h" using d(6,7) by simp_all
  obtain img0 rest where im: "images = img0 # rest" using d(1) by (cases images) auto
  have w: "Dx (Rect img0) - WindowSize (algorithm r) + 1 = ?w"
    and h: "Dy (Rect img0) - WindowSize (algorithm r) + 1 = ?h"
    by (simp_all add: widthOut_def heightOut_def im)
  have "calculateContrastMap r u K schedule (img0 # rest)
      = Inr (buildImage u ?w ?h (map (contrastRow r (img0 # rest) ?w) [0..?h - 1]))"
    using assms(2,4) w h wh by (rule calculateContrastMap_Cons)
  then have seq: "calculateContrastMap r u K schedule images = Inr (sequentialContrastMap r u images)"
    by (simp add: im sequentialContrastMap_def contrastRow_def [abs_def] Let_def)
  have "map (\<lambda>i. scaleContrast u (temporalWindowContrast r images (int i mod ?w) (int i div ?w)))
          [0..<nat (?w * ?h)]
      = map (\<lambda>i. scaleContrast u' (temporalWindowContrast r images (int i mod ?w) (int i div ?w)))
          [0..<nat (?w * ?h)]"
    by (intro map_cong refl scaleContrast_valid d(2,3))
  then have "calculateContrastMap r u K schedule images
      = calculateContrastMap r u' K' schedule' images"
    by (simp only: calculateContrastMap_closed [OF assms(2,4) d(1) wh]
        calculateContrastMap_closed [OF assms(3,5) d(1) wh])
  with seq show ?thesis by simp
qed

theorem worker_count_invariance_witness:
  "validInput (runnerWith 2) [uniformFrame 4 3 7, uniformFrame 4 3 9] 4 3
   \<and> (1::int) \<le> 1 \<and> (1::int) \<le> 8
   \<and> (\<forall>ws :: (int \<times> float64 list) list. mset (id ws) = mset ws)
   \<and> (\<forall>ws :: (int \<times> float64 list) list. mset (rev ws) = mset ws)
   \<and> calculateContrastMap (runnerWith 2) zeroByte 1 id [uniformFrame 4 3 7, uniformFrame 4 3 9]
       = calculateContrastMap (runnerWith 2) zeroByte 8 rev [uniformFrame 4 3 7, uniformFrame 4 3 9]
   \<and> calculateContrastMap (runnerWith 2) zeroByte 1 id [uniformFrame 4 3 7, uniformFrame 4 3 9]
       = Inr (sequentialContrastMap (runnerWith 2) zeroByte [uniformFrame 4 3 7, uniformFrame 4 3 9])"
proof -
  have v: "validInput (runnerWith 2) [uniformFrame 4 3 7, uniformFrame 4 3 9] 4 3"
    by (simp add: validInput_def isFrame_uniformFrame WindowSize_runnerWith)
  have k: "(1::int) \<le> 1" "(1::int) \<le> 8" by simp_all
  have s: "\<forall>ws :: (int \<times> float64 list) list. mset (id ws) = mset ws"
    "\<forall>ws :: (int \<times> float64 list) list. mset (rev ws) = mset ws" by simp_all
  from worker_count_invariance [OF v k s, of zeroByte zeroByte] v k s show ?thesis by blast
qed

subsection \<open>Scaling to bytes\<close>

lemma GrayAt_uniformFrame:
  assumes "0 \<le> x" "x < W" "0 \<le> y" "y < H"
  shows "GrayAt (uniformFrame W H v) x y = v"
proof -
  have "nat (y * W + x) < nat (W * H)" using offset_less [OF assms] by simp
  then show ?thesis
    using assms
    by (simp add: GrayAt_def uniformFrame_def image_Rect_def Point_In_def PixOffset_def)
qed

text \<open>
  Claim C3, as amended. For a valid input and every cell \<open>(x, y)\<close> of the output, the
  window contrast is a finite \<open>c \<ge> 0\<close> and the stored byte is
  \<open>min (floor (c * 255)) 255\<close>: the conversion to a byte discards the fraction of the
  scaled value, it does not round to the nearest integer, and a scaled value above 255
  is stored as 255.
\<close>

theorem scaling_truncates:
  assumes "validInput r images W H" "1 \<le> K" "\<forall>ws. mset (schedule ws) = mset ws"
    and "0 \<le> x" "x < W - WindowSize (algorithm r) + 1"
    and "0 \<le> y" "y < H - WindowSize (algorithm r) + 1"
  shows "\<exists>m c. calculateContrastMap r u K schedule images = Inr m
           \<and> temporalWindowContrast r images x y = Fin c \<and> 0 \<le> c
           \<and> uint (GrayAt m x y) = min \<lfloor>c * 255\<rfloor> 255"
proof -
  note d = validInput_dims [OF assms(1)]
  obtain m where m: "calculateContrastMap r u K schedule images = Inr m"
    "GrayAt m x y = scaleContrast u (temporalWindowContrast r images x y)"
    using calculateContrastMap_cell [OF assms(2,3) d(1), of x r y u] assms(4-7) d(4,5) by auto
  obtain c where c: "temporalWindowContrast r images x y = Fin c" "0 \<le> c"
    using temporalWindowContrast_nonneg [OF d(2,3)] by blast
  have "uint (GrayAt m x y) = min \<lfloor>c * 255\<rfloor> 255"
    by (simp add: m(2) c(1) uint_scaleContrast_Fin [OF c(2)])
  with m(1) c show ?thesis by blast
qed

lemma contrast_3_4_5:
  "temporalWindowContrast (runnerWith 1)
     [uniformFrame 1 1 3, uniformFrame 1 1 4, uniformFrame 1 1 5] 0 0 = Fin (1 / 4)"
  by (simp add: temporalWindowContrast_Fin WindowSize_runnerWith grayValues_def
      GrayAt_uniformFrame spec_pixelContrast_def spec_mean_def spec_stdDev_def
      spec_sampleVariance_def)

lemma widthOut_uniform:
  "0 \<le> W \<Longrightarrow> widthOut (runnerWith S) (uniformFrame W H v # rest) = W - S + 1"
  by (simp add: widthOut_def WindowSize_runnerWith uniformFrame_def Dx_image_Rect)

lemma heightOut_uniform:
  "0 \<le> H \<Longrightarrow> heightOut (runnerWith S) (uniformFrame W H v # rest) = H - S + 1"
  by (simp add: heightOut_def WindowSize_runnerWith uniformFrame_def Dy_image_Rect)

text \<open>
  Claim C3 as stated fails. Three frames of one pixel with the intensities 3, 4 and 5
  have mean 4, sample variance 1 and contrast \<open>1/4\<close>; the scaled value is \<open>63.75\<close>, the
  stored byte is 63, and rounding to the nearest integer would give 64.
\<close>

theorem scaling_rounds_counterexample:
  "calculateContrastMap (runnerWith 1) zeroByte 1 id
     [uniformFrame 1 1 3, uniformFrame 1 1 4, uniformFrame 1 1 5]
     = Inr \<lparr>Pix = [63], Stride = 1, Rect = \<lparr>MinX = 0, MinY = 0, MaxX = 1, MaxY = 1\<rparr>\<rparr>
   \<and> temporalWindowContrast (runnerWith 1)
       [uniformFrame 1 1 3, uniformFrame 1 1 4, uniformFrame 1 1 5] 0 0 = Fin (1 / 4)
   \<and> min (round (1 / 4 * 255 :: real)) 255 = (64 :: int)"
proof -
  let ?F = "[uniformFrame 1 1 3, uniformFrame 1 1 4, uniformFrame 1 1 5]"
  have k: "(1::int) \<le> 1" by simp
  have s: "\<forall>ws :: (int \<times> float64 list) list. mset (id ws) = mset ws" by simp
  have ne: "?F \<noteq> []" by simp
  have wh: "0 \<le> widthOut (runnerWith 1) ?F" "0 \<le> heightOut (runnerWith 1) ?F"
    by (simp_all add: widthOut_uniform heightOut_uniform)
  have sc: "scaleContrast zeroByte (Fin (1 / 4)) = 63"
    by (simp add: scaleContrast_Fin)
  have "calculateContrastMap (runnerWith 1) zeroByte 1 id ?F
     = Inr \<lparr>Pix = [63], Stride = 1, Rect = \<lparr>MinX = 0, MinY = 0, MaxX = 1, MaxY = 1\<rparr>\<rparr>"
    unfolding calculateContrastMap_closed [OF k s ne wh]
    by (simp add: widthOut_uniform heightOut_uniform contrast_3_4_5 sc image_Rect_def)
  moreover have "min (round (1 / 4 * 255 :: real)) 255 = (64 :: int)"
    by (simp add: round_def)
  ultimately show ?thesis using contrast_3_4_5 by simp
qed

theorem scaling_truncates_witness:
  "validInput (runnerWith 1) [uniformFrame 1 1 3, uniformFrame 1 1 4, uniformFrame 1 1 5] 1 1
   \<and> (1::int) \<le> 1 \<and> (\<forall>ws :: (int \<times> float64 list) list. mset (id ws) = mset ws)
   \<and> (0::int) \<le> 0 \<and> (0::int) < 1 - WindowSize (algorithm (runnerWith 1)) + 1
   \<and> (\<exists>m c. calculateContrastMap (runnerWith 1) zeroByte 1 id
                 [uniformFrame 1 1 3, uniformFrame 1 1 4, uniformFrame 1 1 5] = Inr m
          \<and> temporalWindowContrast (runnerWith 1)
                 [uniformFrame 1 1 3, uniformFrame 1 1 4, uniformFrame 1 1 5] 0 0 = Fin c
          \<and> 0 \<le> c \<and> uint (GrayAt m 0 0) = min \<lfloor>c * 255\<rfloor> 255)"
proof -
  have v: "validInput (runnerWith 1) [uniformFrame 1 1 3, uniformFrame 1 1 4, uniformFrame 1 1 5] 1 1"
    by (simp add: validInput_def isFrame_uniformFrame WindowSize_runnerWith)
  have k: "(1::int) \<le> 1" by simp
  have s: "\<forall>ws :: (int \<times> float64 list) list. mset (id ws) = mset ws" by simp
  have b: "(0::int) \<le> 0" "(0::int) < 1 - WindowSize (algorithm (runnerWith 1)) + 1"
    by (simp_all add: WindowSize_runnerWith)
  from scaling_truncates [OF v k s b b, of zeroByte] v k s b show ?thesis by blast
qed

subsection \<open>Constant sequences\<close>

lemma grayValues_constant:
  assumes "\<forall>f\<in>set images. f = hd images"
  shows "grayValues images px py
         = replicate (length images) (real (unat (GrayAt (hd images) px py)))"
proof -
  have "map (\<lambda>img. real (unat (GrayAt img px py))) images
      = map (\<lambda>img. real (unat (GrayAt (hd images) px py))) images"
    using assms by (intro map_cong) simp_all
  then show ?thesis by (simp add: grayValues_def map_replicate_const)
qed

lemma spec_stdDev_replicate: "spec_stdDev (replicate n c) = 0"
proof (cases "n = 0")
  case True
  then show ?thesis by (simp add: spec_stdDev_def spec_sampleVariance_def)
next
  case False
  then have "spec_mean (replicate n c) = c" by (simp add: spec_mean_def sum_list_replicate)
  then show ?thesis
    by (simp add: spec_stdDev_def spec_sampleVariance_def sum_list_replicate)
qed

lemma spec_pixelContrast_replicate: "spec_pixelContrast (replicate n c) = 0"
  by (simp add: spec_pixelContrast_def spec_stdDev_replicate)

text \<open>
  Claim C8. For a valid input whose frames are all the same image, the temporal
  standard deviation of every pixel is 0, the window contrast is 0 at every position,
  and the contrast map holds the byte 0 in every cell. The instance of the
  specification (two \<open>3 \<times> 3\<close> frames with every pixel 100, window size 1, a
  \<open>3 \<times> 3\<close> map of zeros) follows the theorem.
\<close>

theorem constant_sequence:
  assumes "validInput r images W H" "1 \<le> K" "\<forall>ws. mset (schedule ws) = mset ws"
    and "\<forall>f\<in>set images. f = hd images"
  shows "(\<forall>px py. temporalStdDev (timeSeries images px py) = Fin 0)
       \<and> (\<forall>x y. temporalWindowContrast r images x y = Fin 0)
       \<and> calculateContrastMap r u K schedule images
           = Inr \<lparr>Pix = replicate (nat ((W - WindowSize (algorithm r) + 1)
                                        * (H - WindowSize (algorithm r) + 1))) 0,
                  Stride = W - WindowSize (algorithm r) + 1,
                  Rect = image_Rect 0 0 (W - WindowSize (algorithm r) + 1)
                           (H - WindowSize (algorithm r) + 1)\<rparr>"
proof -
  note d = validInput_dims [OF assms(1)]
  have wh: "0 \<le> widthOut r images" "0 \<le> heightOut r images" using d(6,7) by simp_all
  have sd: "temporalStdDev (timeSeries images px py) = Fin 0" for px py
  proof -
    have "2 \<le> length (grayValues images px py)" using d(2) by (simp add: grayValues_def)
    then have "temporalStdDev (timeSeries images px py) = Fin (spec_stdDev (grayValues images px py))"
      unfolding timeSeries_Fin by (rule temporalStdDev_Fin)
    then show ?thesis
      by (simp only: grayValues_constant [OF assms(4)] spec_stdDev_replicate)
  qed
  have c: "temporalWindowContrast r images x y = Fin 0" for x y
    by (simp add: temporalWindowContrast_Fin [OF d(2,3)] grayValues_constant [OF assms(4)]
        spec_pixelContrast_replicate)
  have z: "scaleContrast u (Fin 0) = 0" by (simp add: scaleContrast_Fin)
  have "calculateContrastMap r u K schedule images
      = Inr \<lparr>Pix = replicate (nat (widthOut r images * heightOut r images)) 0,
             Stride = widthOut r images,
             Rect = image_Rect 0 0 (widthOut r images) (heightOut r images)\<rparr>"
    unfolding calculateContrastMap_closed [OF assms(2,3) d(1) wh]
    by (simp add: c z map_replicate_const)
  then show ?thesis using sd c by (simp add: d(4,5))
qed

theorem constant_sequence_witness:
  "validInput (runnerWith 1) [uniformFrame 3 3 100, uniformFrame 3 3 100] 3 3
   \<and> (1::int) \<le> 4 \<and> (\<forall>ws :: (int \<times> float64 list) list. mset (rev ws) = mset ws)
   \<and> list_all (\<lambda>f. f = hd [uniformFrame 3 3 100, uniformFrame 3 3 100])
         [uniformFrame 3 3 100, uniformFrame 3 3 100]
   \<and> temporalStdDev (timeSeries [uniformFrame 3 3 100, uniformFrame 3 3 100] 1 2) = Fin 0
   \<and> temporalWindowContrast (runnerWith 1) [uniformFrame 3 3 100, uniformFrame 3 3 100] 1 2 = Fin 0
   \<and> calculateContrastMap (runnerWith 1) zeroByte 4 rev [uniformFrame 3 3 100, uniformFrame 3 3 100]
       = Inr \<lparr>Pix = replicate 9 0, Stride = 3,
              Rect = \<lparr>MinX = 0, MinY = 0, MaxX = 3, MaxY = 3\<rparr>\<rparr>"
proof -
  have v: "validInput (runnerWith 1) [uniformFrame 3 3 100, uniformFrame 3 3 100] 3 3"
    by (simp add: validInput_def isFrame_uniformFrame WindowSize_runnerWith)
  have k: "(1::int) \<le> 4" by simp
  have s: "\<forall>ws :: (int \<times> float64 list) list. mset (rev ws) = mset ws" by simp
  have e: "\<forall>f\<in>set [uniformFrame 3 3 100, uniformFrame 3 3 100].
         f = hd [uniformFrame 3 3 100, uniformFrame 3 3 100]" by simp
  note t = constant_sequence [OF v k s e, of zeroByte]
  have "calculateContrastMap (runnerWith 1) zeroByte 4 rev [uniformFrame 3 3 100, uniformFrame 3 3 100]
       = Inr \<lparr>Pix = replicate 9 0, Stride = 3,
              Rect = \<lparr>MinX = 0, MinY = 0, MaxX = 3, MaxY = 3\<rparr>\<rparr>"
    using t by (simp add: WindowSize_runnerWith image_Rect_def)
  moreover have "list_all (\<lambda>f. f = hd [uniformFrame 3 3 100, uniformFrame 3 3 100])
         [uniformFrame 3 3 100, uniformFrame 3 3 100]"
    by simp
  ultimately show ?thesis using t v k s by blast
qed

subsection \<open>The scenario with the intensities 50 and 150\<close>

lemma sqrt_5000_bounds: "706 / 10 \<le> sqrt 5000" "sqrt 5000 < 709 / 10"
proof -
  have "(706 / 10 :: real)\<^sup>2 \<le> 5000" by (simp add: power2_eq_square)
  then show "706 / 10 \<le> sqrt 5000" by (rule real_le_rsqrt)
  have "(5000 :: real) < (709 / 10)\<^sup>2" by (simp add: power2_eq_square)
  then show "sqrt 5000 < 709 / 10" by (intro real_less_lsqrt) simp_all
qed

lemma scale_5000: "scaleContrast u (Fin (sqrt 5000 / 100)) = 180"
proof -
  have "\<lfloor>sqrt 5000 / 100 * 255\<rfloor> = 180"
    using sqrt_5000_bounds by (intro floor_unique) simp_all
  then show ?thesis by (simp add: scaleContrast_Fin)
qed

lemma series_50_150:
  assumes "0 \<le> x" "x < 3" "0 \<le> y" "y < 3"
  shows "grayValues [uniformFrame 3 3 50, uniformFrame 3 3 150] x y = [50, 150]"
  using assms by (simp add: grayValues_def GrayAt_uniformFrame)

lemma stats_50_150:
  "spec_mean [50, 150] = 100" "spec_sampleVariance [50, 150] = 5000"
  "spec_stdDev [50, 150] = sqrt 5000" "spec_pixelContrast [50, 150] = sqrt 5000 / 100"
proof -
  show m: "spec_mean [50, 150] = 100" by (simp add: spec_mean_def)
  show v: "spec_sampleVariance [50, 150] = 5000" by (simp add: spec_sampleVariance_def m)
  show s: "spec_stdDev [50, 150] = sqrt 5000" by (simp add: spec_stdDev_def v)
  show "spec_pixelContrast [50, 150] = sqrt 5000 / 100" by (simp add: spec_pixelContrast_def m s)
qed

text \<open>
  Claim C9. For two \<open>3 \<times> 3\<close> frames, one with every pixel 50 and one with every pixel
  150, and window size 1, the contrast map is a \<open>3 \<times> 3\<close> image with the byte 180 in
  every cell, for every worker count and every schedule: at every pixel the mean is
  100, the standard deviation is the square root of the sample variance 5000, and the
  contrast is \<open>sqrt 5000 / 100\<close>, about 0.7071.
\<close>

theorem scenario_50_150:
  assumes "1 \<le> K" "\<forall>ws. mset (schedule ws) = mset ws"
  shows "calculateContrastMap (runnerWith 1) u K schedule [uniformFrame 3 3 50, uniformFrame 3 3 150]
           = Inr \<lparr>Pix = replicate 9 180, Stride = 3,
                  Rect = \<lparr>MinX = 0, MinY = 0, MaxX = 3, MaxY = 3\<rparr>\<rparr>
       \<and> (\<forall>x\<in>{0..2}. \<forall>y\<in>{0..2}.
             temporalMean (timeSeries [uniformFrame 3 3 50, uniformFrame 3 3 150] x y) = Fin 100
           \<and> temporalStdDev (timeSeries [uniformFrame 3 3 50, uniformFrame 3 3 150] x y)
               = Fin (sqrt 5000)
           \<and> temporalWindowContrast (runnerWith 1) [uniformFrame 3 3 50, uniformFrame 3 3 150] x y
               = Fin (sqrt 5000 / 100))"
proof -
  let ?F = "[uniformFrame 3 3 50, uniformFrame 3 3 150]"
  have len: "2 \<le> length ?F" by simp
  have S: "WindowSize (algorithm (runnerWith 1)) \<noteq> 0" by (simp add: WindowSize_runnerWith)
  have c: "temporalWindowContrast (runnerWith 1) ?F x y = Fin (sqrt 5000 / 100)"
    if "0 \<le> x" "x < 3" "0 \<le> y" "y < 3" for x y
    by (simp add: temporalWindowContrast_Fin [OF len S] WindowSize_runnerWith
        series_50_150 [OF that] stats_50_150)
  have m: "temporalMean (timeSeries ?F x y) = Fin 100
      \<and> temporalStdDev (timeSeries ?F x y) = Fin (sqrt 5000)"
    if "0 \<le> x" "x < 3" "0 \<le> y" "y < 3" for x y
  proof -
    have "temporalMean (map Fin [50, 150]) = Fin (spec_mean [50, 150])"
      by (rule temporalMean_Fin) simp
    moreover have "temporalStdDev (map Fin [50, 150]) = Fin (spec_stdDev [50, 150])"
      by (rule temporalStdDev_Fin) simp
    ultimately show ?thesis
      by (simp only: timeSeries_Fin series_50_150 [OF that] stats_50_150)
  qed
  have ne: "?F \<noteq> []" by simp
  have wh: "0 \<le> widthOut (runnerWith 1) ?F" "0 \<le> heightOut (runnerWith 1) ?F"
    by (simp_all add: widthOut_uniform heightOut_uniform)
  have "map (\<lambda>i. scaleContrast u (temporalWindowContrast (runnerWith 1) ?F (int i mod 3) (int i div 3)))
          [0..<9]
      = map (\<lambda>i. 180) [0..<9]"
  proof (rule map_cong [OF refl])
    fix i :: nat assume "i \<in> set [0..<9]"
    then have "0 \<le> int i mod 3" "int i mod 3 < 3" "0 \<le> int i div 3" "int i div 3 < 3"
      by simp_all
    then show "scaleContrast u (temporalWindowContrast (runnerWith 1) ?F (int i mod 3) (int i div 3))
        = 180"
      by (simp only: c scale_5000)
  qed
  then have "calculateContrastMap (runnerWith 1) u K schedule ?F
           = Inr \<lparr>Pix = replicate 9 180, Stride = 3,
                  Rect = \<lparr>MinX = 0, MinY = 0, MaxX = 3, MaxY = 3\<rparr>\<rparr>"
    unfolding calculateContrastMap_closed [OF assms ne wh]
    by (simp add: widthOut_uniform heightOut_uniform image_Rect_def map_replicate_const)
  moreover have "\<forall>x\<in>{0..2}. \<forall>y\<in>{0..2}.
             temporalMean (timeSeries ?F x y) = Fin 100
           \<and> temporalStdDev (timeSeries ?F x y) = Fin (sqrt 5000)
           \<and> temporalWindowContrast (runnerWith 1) ?F x y = Fin (sqrt 5000 / 100)"
    using c m by simp
  ultimately show ?thesis by blast
qed

theorem scenario_50_150_witness:
  "(1::int) \<le> 4 \<and> (\<forall>ws :: (int \<times> float64 list) list. mset (rev ws) = mset ws)
   \<and> calculateContrastMap (runnerWith 1) zeroByte 4 rev [uniformFrame 3 3 50, uniformFrame 3 3 150]
           = Inr \<lparr>Pix = replicate 9 180, Stride = 3,
                  Rect = \<lparr>MinX = 0, MinY = 0, MaxX = 3, MaxY = 3\<rparr>\<rparr>
   \<and> (1::int) \<in> {0..2} \<and> (2::int) \<in> {0..2}
   \<and> temporalWindowContrast (runnerWith 1) [uniformFrame 3 3 50, uniformFrame 3 3 150] 1 2
       = Fin (sqrt 5000 / 100)"
proof -
  have k: "(1::int) \<le> 4" by simp
  have s: "\<forall>ws :: (int \<times> float64 list) list. mset (rev ws) = mset ws" by simp
  have i: "(1::int) \<in> {0..2}" "(2::int) \<in> {0..2}" by simp_all
  from scenario_50_150 [OF k s, of zeroByte] k s i show ?thesis by blast
qed

subsection \<open>Inputs outside the preconditions\<close>

lemma calculateContrastMap_Nil: "calculateContrastMap r u K schedule [] = Inl IndexOutOfRange"
  by (simp add: calculateContrastMap_def)

lemma calculateContrastMap_negative_height:
  assumes "images \<noteq> []" "heightOut r images < 0"
  shows "calculateContrastMap r u K schedule images = Inl MakesliceLenOutOfRange"
proof -
  obtain img0 rest where im: "images = img0 # rest" using assms(1) by (cases images) auto
  have "Dy (Rect img0) - WindowSize (algorithm r) + 1 < 0"
    using assms(2) by (simp add: heightOut_def im)
  then show ?thesis by (simp add: calculateContrastMap_def im Let_def)
qed

lemma last_worker_has_row:
  assumes "1 \<le> K" "0 < h"
  shows "list_ex (\<lambda>rows. fst rows < snd rows) (map (workerRange K h) [0..K - 1])"
proof -
  define q where "q = quo h K"
  have q: "q = h div K" "0 \<le> q"
    using assms by (simp_all add: q_def quo_nonneg pos_imp_zdiv_nonneg_iff)
  have "K * (h div K) \<le> h"
    using mult_div_mod_eq [of K h] pos_mod_sign [of K h] assms(1) by linarith
  then have "K * q \<le> h" by (simp add: q(1))
  moreover have "(K - 1) * q = K * q - q" by (simp add: algebra_simps)
  ultimately have "(K - 1) * q < h" using q(2) assms(2) by (cases "q = 0") simp_all
  then have "fst (workerRange K h (K - 1)) < snd (workerRange K h (K - 1))"
    by (simp add: workerRange_fst workerRange_snd q_def)
  moreover have "K - 1 \<in> set [0..K - 1]" using assms(1) by simp
  ultimately show ?thesis unfolding list_ex_iff by auto
qed

lemma calculateContrastMap_negative_width:
  assumes "1 \<le> K" "images \<noteq> []" "widthOut r images < 0" "0 < heightOut r images"
  shows "calculateContrastMap r u K schedule images = Inl MakesliceCapOutOfRange"
proof -
  obtain img0 rest where im: "images = img0 # rest" using assms(2) by (cases images) auto
  have w: "Dx (Rect img0) - WindowSize (algorithm r) + 1 < 0"
    using assms(3) by (simp add: widthOut_def im)
  have h: "0 < Dy (Rect img0) - WindowSize (algorithm r) + 1"
    using assms(4) by (simp add: heightOut_def im)
  show ?thesis
    unfolding calculateContrastMap_def im list.case Let_def
    using w h last_worker_has_row [OF assms(1) h] by simp
qed

text \<open>
  Claim C2, as amended. \<open>Run\<close>, and \<open>calculateContrastMap\<close> behind it, check no
  precondition and have no validation error among their results. Given well-formed frames, the call stops with the
  runtime panic of an index out of range on an empty frame list, with the panic of
  \<^verbatim>\<open>make\<close> on a negative output height, and with the panic of \<^verbatim>\<open>make\<close> in a goroutine
  on a negative output width and a positive height; whenever the list is not empty and the two
  output dimensions computed from the first frame are not negative, it returns a map
  of these dimensions, whatever the number of frames, the dimensions of the other
  frames and the sign of the window size.
\<close>

theorem no_validation:
  assumes "1 \<le> K" "\<forall>ws. mset (schedule ws) = mset ws" "list_all wellFormed images"
  shows "(images = [] \<longrightarrow> Run r u K schedule images = Inl IndexOutOfRange)
       \<and> (images \<noteq> [] \<and> heightOut r images < 0
            \<longrightarrow> Run r u K schedule images = Inl MakesliceLenOutOfRange)
       \<and> (images \<noteq> [] \<and> widthOut r images < 0 \<and> 0 < heightOut r images
            \<longrightarrow> Run r u K schedule images = Inl MakesliceCapOutOfRange)
       \<and> (images \<noteq> [] \<and> 0 \<le> widthOut r images \<and> 0 \<le> heightOut r images
            \<longrightarrow> (\<exists>m. Run r u K schedule images = Inr m
                   \<and> Rect m = image_Rect 0 0 (widthOut r images) (heightOut r images)))"
proof (intro conjI impI)
  assume "images = []"
  then show "Run r u K schedule images = Inl IndexOutOfRange"
    by (simp add: Run_def calculateContrastMap_Nil)
next
  assume "images \<noteq> [] \<and> heightOut r images < 0"
  then show "Run r u K schedule images = Inl MakesliceLenOutOfRange"
    by (simp add: Run_def calculateContrastMap_negative_height)
next
  assume "images \<noteq> [] \<and> widthOut r images < 0 \<and> 0 < heightOut r images"
  then show "Run r u K schedule images = Inl MakesliceCapOutOfRange"
    by (simp add: Run_def calculateContrastMap_negative_width [OF assms(1)])
next
  assume a: "images \<noteq> [] \<and> 0 \<le> widthOut r images \<and> 0 \<le> heightOut r images"
  then have ne: "images \<noteq> []" and w: "0 \<le> widthOut r images" and h: "0 \<le> heightOut r images"
    by simp_all
  show "\<exists>m. Run r u K schedule images = Inr m
          \<and> Rect m = image_Rect 0 0 (widthOut r images) (heightOut r images)"
    unfolding Run_def calculateContrastMap_closed [OF assms(1,2) ne w h] by simp
qed

lemma contrast_single_dark:
  "temporalWindowContrast (runnerWith 1) [uniformFrame 1 1 0] 0 0 = Fin 0"
proof -
  have "pixelStep [uniformFrame 1 1 0] 0 0 (Fin 0) = Fin 0"
    by (rule pixelStep_dark) (simp add: GrayAt_uniformFrame)
  then show ?thesis
    by (simp add: temporalWindowContrast_def WindowSize_runnerWith Let_def fdiv_Fin)
qed

lemma contrast_mismatched:
  "temporalWindowContrast (runnerWith 1) [uniformFrame 1 1 7, uniformFrame 2 2 7] 0 0 = Fin 0"
  by (simp add: temporalWindowContrast_Fin WindowSize_runnerWith grayValues_def
      GrayAt_uniformFrame spec_pixelContrast_def spec_mean_def spec_stdDev_def
      spec_sampleVariance_def)

text \<open>
  Claim C2 as stated fails: three inputs outside the preconditions for which a map is
  returned. A single frame (its one pixel dark); two frames of different dimensions;
  window size 2 on frames of one pixel, where the map is empty.
\<close>

theorem validation_counterexample:
  "Run (runnerWith 1) zeroByte 1 id [uniformFrame 1 1 0]
     = Inr \<lparr>Pix = [0], Stride = 1, Rect = \<lparr>MinX = 0, MinY = 0, MaxX = 1, MaxY = 1\<rparr>\<rparr>
   \<and> Run (runnerWith 1) zeroByte 1 id [uniformFrame 1 1 7, uniformFrame 2 2 7]
     = Inr \<lparr>Pix = [0], Stride = 1, Rect = \<lparr>MinX = 0, MinY = 0, MaxX = 1, MaxY = 1\<rparr>\<rparr>
   \<and> Run (runnerWith 2) zeroByte 1 id [uniformFrame 1 1 7, uniformFrame 1 1 7]
     = Inr \<lparr>Pix = [], Stride = 0, Rect = \<lparr>MinX = 0, MinY = 0, MaxX = 0, MaxY = 0\<rparr>\<rparr>"
proof -
  have k: "(1::int) \<le> 1" by simp
  have s: "\<forall>ws :: (int \<times> float64 list) list. mset (id ws) = mset ws" by simp
  have z: "scaleContrast zeroByte (Fin 0) = 0" by (simp add: scaleContrast_Fin)
  have "Run (runnerWith 1) zeroByte 1 id [uniformFrame 1 1 0]
     = Inr \<lparr>Pix = [0], Stride = 1, Rect = \<lparr>MinX = 0, MinY = 0, MaxX = 1, MaxY = 1\<rparr>\<rparr>"
    unfolding Run_def
    by (subst calculateContrastMap_closed [OF k s])
       (simp_all add: widthOut_uniform heightOut_uniform contrast_single_dark z image_Rect_def)
  moreover have "Run (runnerWith 1) zeroByte 1 id [uniformFrame 1 1 7, uniformFrame 2 2 7]
     = Inr \<lparr>Pix = [0], Stride = 1, Rect = \<lparr>MinX = 0, MinY = 0, MaxX = 1, MaxY = 1\<rparr>\<rparr>"
    unfolding Run_def
    by (subst calculateContrastMap_closed [OF k s])
       (simp_all add: widthOut_uniform heightOut_uniform contrast_mismatched z image_Rect_def)
  moreover have "Run (runnerWith 2) zeroByte 1 id [uniformFrame 1 1 7, uniformFrame 1 1 7]
     = Inr \<lparr>Pix = [], Stride = 0, Rect = \<lparr>MinX = 0, MinY = 0, MaxX = 0, MaxY = 0\<rparr>\<rparr>"
    unfolding Run_def
    by (subst calculateContrastMap_closed [OF k s])
       (simp_all add: widthOut_uniform heightOut_uniform image_Rect_def)
  ultimately show ?thesis by blast
qed

theorem no_validation_witness:
  "(1::int) \<le> 2 \<and> (\<forall>ws :: (int \<times> float64 list) list. mset (rev ws) = mset ws)
   \<and> list_all wellFormed ([] :: Gray list)
   \<and> Run (runnerWith 1) zeroByte 2 rev [] = Inl IndexOutOfRange
   \<and> list_all wellFormed [uniformFrame 2 1 7, uniformFrame 2 1 9]
   \<and> [uniformFrame 2 1 7, uniformFrame 2 1 9] \<noteq> []
   \<and> heightOut (runnerWith 3) [uniformFrame 2 1 7, uniformFrame 2 1 9] < 0
   \<and> Run (runnerWith 3) zeroByte 2 rev [uniformFrame 2 1 7, uniformFrame 2 1 9]
       = Inl MakesliceLenOutOfRange
   \<and> list_all wellFormed [uniformFrame 1 3 7, uniformFrame 1 3 9]
   \<and> [uniformFrame 1 3 7, uniformFrame 1 3 9] \<noteq> []
   \<and> widthOut (runnerWith 3) [uniformFrame 1 3 7, uniformFrame 1 3 9] < 0
   \<and> 0 < heightOut (runnerWith 3) [uniformFrame 1 3 7, uniformFrame 1 3 9]
   \<and> Run (runnerWith 3) zeroByte 2 rev [uniformFrame 1 3 7, uniformFrame 1 3 9]
       = Inl MakesliceCapOutOfRange
   \<and> list_all wellFormed [uniformFrame 2 1 7]
   \<and> [uniformFrame 2 1 7] \<noteq> []
   \<and> 0 \<le> widthOut (runnerWith 0) [uniformFrame 2 1 7]
   \<and> 0 \<le> heightOut (runnerWith 0) [uniformFrame 2 1 7]
   \<and> (\<exists>m. Run (runnerWith 0) zeroByte 2 rev [uniformFrame 2 1 7] = Inr m
          \<and> Rect m = image_Rect 0 0 (widthOut (runnerWith 0) [uniformFrame 2 1 7])
                         (heightOut (runnerWith 0) [uniformFrame 2 1 7]))"
proof -
  have k: "(1::int) \<le> 2" by simp
  have s: "\<forall>ws :: (int \<times> float64 list) list. mset (rev ws) = mset ws" by simp
  have w0: "list_all wellFormed ([] :: Gray list)" by simp
  have w2: "list_all wellFormed [uniformFrame 2 1 7, uniformFrame 2 1 9]"
    by (simp add: wellFormed_uniformFrame)
  have w1: "list_all wellFormed [uniformFrame 2 1 7]"
    by (simp add: wellFormed_uniformFrame)
  have h2: "heightOut (runnerWith 3) [uniformFrame 2 1 7, uniformFrame 2 1 9] < 0"
    by (simp add: heightOut_uniform)
  have d1: "0 \<le> widthOut (runnerWith 0) [uniformFrame 2 1 7]"
    "0 \<le> heightOut (runnerWith 0) [uniformFrame 2 1 7]"
    by (simp_all add: widthOut_uniform heightOut_uniform)
  have n: "[uniformFrame 2 1 7, uniformFrame 2 1 9] \<noteq> []" "[uniformFrame 2 1 7] \<noteq> []"
    by simp_all
  have w3: "list_all wellFormed [uniformFrame 1 3 7, uniformFrame 1 3 9]"
    by (simp add: wellFormed_uniformFrame)
  have d3: "widthOut (runnerWith 3) [uniformFrame 1 3 7, uniformFrame 1 3 9] < 0"
    "0 < heightOut (runnerWith 3) [uniformFrame 1 3 7, uniformFrame 1 3 9]"
    "[uniformFrame 1 3 7, uniformFrame 1 3 9] \<noteq> []"
    by (simp_all add: widthOut_uniform heightOut_uniform)
  note e = no_validation [OF k s w3, of "runnerWith 3" zeroByte]
  note a = no_validation [OF k s w0, of "runnerWith 1" zeroByte]
  note b = no_validation [OF k s w2, of "runnerWith 3" zeroByte]
  note c = no_validation [OF k s w1, of "runnerWith 0" zeroByte]
  have p1: "Run (runnerWith 1) zeroByte 2 rev [] = Inl IndexOutOfRange"
    using a by blast
  have p2: "Run (runnerWith 3) zeroByte 2 rev [uniformFrame 2 1 7, uniformFrame 2 1 9]
       = Inl MakesliceLenOutOfRange"
    using b n(1) h2 by blast
  have p3: "Run (runnerWith 3) zeroByte 2 rev [uniformFrame 1 3 7, uniformFrame 1 3 9]
       = Inl MakesliceCapOutOfRange"
    using e d3 by blast
  have p4: "\<exists>m. Run (runnerWith 0) zeroByte 2 rev [uniformFrame 2 1 7] = Inr m
          \<and> Rect m = image_Rect 0 0 (widthOut (runnerWith 0) [uniformFrame 2 1 7])
                         (heightOut (runnerWith 0) [uniformFrame 2 1 7])"
    using c n(2) d1 by blast
  show ?thesis
    by (intro conjI k s w0 p1 w2 n(1) h2 p2 w3 d3(3) d3(1) d3(2) p3 w1 n(2) d1(1) d1(2) p4)
qed

end
